theory Spec2Isabelle
  imports Main "HOL-Library.AList" "HOL-Library.List_Lexorder" "HOL-Library.Char_ord"
begin

section \<open>Python values: strings, slices, exceptions, output\<close>

text \<open>
  A Python \<open>str\<close> is modelled as a \<open>string\<close>, one \<open>char\<close> per code point; the model
  covers the code points below 256. \<open>isspace\<close> is \<open>str.isspace\<close> on one character, which is
  also the class \<open>\s\<close> of \<open>re\<close> on a \<open>str\<close> pattern: in that range the characters
  9-13, 28-32, 133 and 160.
\<close>

definition isspace :: "char \<Rightarrow> bool" where
  "isspace c = (of_char c \<in> {9, 10, 11, 12, 13, 28, 29, 30, 31, 32, 133, 160 :: nat})"

text \<open>\<open>s.strip()\<close>: whitespace removed at both ends.\<close>

definition strip :: "string \<Rightarrow> string" where
  "strip s = rev (dropWhile isspace (rev (dropWhile isspace s)))"

text \<open>\<open>re.sub(r"\s+", " ", s)\<close>: every maximal run of whitespace becomes one space.\<close>

function re_sub_ws :: "string \<Rightarrow> string" where
  "re_sub_ws [] = []"
| "re_sub_ws (c # cs) =
     (if isspace c then CHR '' '' # re_sub_ws (dropWhile isspace cs) else c # re_sub_ws cs)"
  by pat_completeness auto
termination
  by (relation "measure length") (auto simp: less_Suc_eq_le length_dropWhile_le)

text \<open>\<open>re.sub(r"\s+", " ", raw).strip()\<close>, the normalisation both modules apply.\<close>

definition normalise :: "string \<Rightarrow> string" where
  "normalise raw = strip (re_sub_ws raw)"

text \<open>\<open>sep.join(xs)\<close>.\<close>

fun join :: "string \<Rightarrow> string list \<Rightarrow> string" where
  "join sep [] = []"
| "join sep [x] = x"
| "join sep (x # y # ys) = x @ sep @ join sep (y # ys)"

definition NL :: string where
  "NL = [CHR 0x0A]"

text \<open>\<open>s.lower()\<close> on code points below 256: A-Z and the capital letters 192-222 except 215.\<close>

definition lower_char :: "char \<Rightarrow> char" where
  "lower_char c =
     (let n = (of_char c :: nat)
      in if (65 \<le> n \<and> n \<le> 90) \<or> (192 \<le> n \<and> n \<le> 222 \<and> n \<noteq> 215)
         then char_of (n + 32) else c)"

definition lower :: "string \<Rightarrow> string" where
  "lower s = map lower_char s"

text \<open>\<open>str(i)\<close> of a non-negative \<open>int\<close>: decimal digits, no leading zero.\<close>

definition digit_char :: "nat \<Rightarrow> char" where
  "digit_char d = ''0123456789'' ! d"

fun str_nat :: "nat \<Rightarrow> string" where
  "str_nat n = (if n < 10 then [digit_char n] else str_nat (n div 10) @ [digit_char (n mod 10)])"

declare str_nat.simps [simp del]

text \<open>
  \<open>xs[i:j]\<close>: a negative index counts from the end, and both indices are clamped to
  \<open>0 .. len(xs)\<close>; the slice is empty when the clamped \<open>j\<close> is not above the clamped \<open>i\<close>.
\<close>

definition py_slice :: "'a list \<Rightarrow> int \<Rightarrow> int \<Rightarrow> 'a list" where
  "py_slice xs i j =
     (let n = int (length xs);
          lo = (if i < 0 then max (i + n) 0 else min i n);
          hi = (if j < 0 then max (j + n) 0 else min j n)
      in take (nat (hi - lo)) (drop (nat lo) xs))"

text \<open>
  Exceptions, by the classes the handlers of the source tell apart. \<open>RuntimeError\<close> and
  \<open>ImportError\<close> stand for these classes and their subclasses, \<open>OtherException\<close> for any
  other subclass of \<open>Exception\<close> (an \<open>OSError\<close> of the OCR engine, a parser error).
\<close>

datatype exn =
    ValueError string
  | RuntimeError string
  | ImportError string
  | UnboundLocalError string
  | OtherException string

fun is_RuntimeError :: "exn \<Rightarrow> bool" where
  "is_RuntimeError (RuntimeError m) = True"
| "is_RuntimeError e = False"

fun is_ImportError :: "exn \<Rightarrow> bool" where
  "is_ImportError (ImportError m) = True"
| "is_ImportError e = False"

text \<open>\<open>except Exception\<close> handles every exception of the model.\<close>

definition is_Exception :: "exn \<Rightarrow> bool" where
  "is_Exception e = True"

text \<open>
  Every \<open>print\<close> of the source is one constructor, carrying the values its f-string
  formats; the comment gives the line of the source.
\<close>

datatype log_msg =
    DP_Extracting string string  \<comment> \<open>document_processor 114: file path, type\<close>
  | DP_NoText                    \<comment> \<open>document_processor 128\<close>
  | DP_Extracted nat             \<comment> \<open>document_processor 131: characters\<close>
  | DP_Created nat               \<comment> \<open>document_processor 133: chunks\<close>
  | OCR_Running                  \<comment> \<open>pdf_processor 82\<close>
  | OCR_Page nat nat             \<comment> \<open>pdf_processor 90: page, characters\<close>
  | OCR_PageNoText nat           \<comment> \<open>pdf_processor 93: page\<close>
  | Img_Found nat string nat     \<comment> \<open>pdf_processor 128: page, image name, characters\<close>
  | Img_Skipping nat exn         \<comment> \<open>pdf_processor 133: page, exception\<close>
  | Img_Processed nat nat        \<comment> \<open>pdf_processor 139: images, images with text\<close>
  | S1_Start string              \<comment> \<open>pdf_processor 198: file path\<close>
  | S1_Extracted nat             \<comment> \<open>pdf_processor 201\<close>
  | S1_NoTextLayer               \<comment> \<open>pdf_processor 204\<close>
  | S2_Start                     \<comment> \<open>pdf_processor 207\<close>
  | S2_Extracted nat             \<comment> \<open>pdf_processor 211\<close>
  | S2_NoText                    \<comment> \<open>pdf_processor 215\<close>
  | S2_Skipped exn               \<comment> \<open>pdf_processor 217\<close>
  | S3_Start                     \<comment> \<open>pdf_processor 220\<close>
  | S3_Extracted nat             \<comment> \<open>pdf_processor 224\<close>
  | S3_NoText                    \<comment> \<open>pdf_processor 228\<close>
  | S3_Skipped exn               \<comment> \<open>pdf_processor 230\<close>
  | PDF_NoText                   \<comment> \<open>pdf_processor 236\<close>
  | PDF_Total nat nat            \<comment> \<open>pdf_processor 240: characters, chunks\<close>
  | VS_NoChunks                  \<comment> \<open>vector_store 48\<close>
  | VS_Stored nat string nat     \<comment> \<open>vector_store 74: chunks, document id, collection total\<close>

text \<open>
  A call returns a value, raises, or never returns, and prints lines on the way. The
  lines printed before an exception stay printed.
\<close>

datatype 'a result = Returns 'a | Raises exn | Diverges

type_synonym 'a io = "'a result \<times> log_msg list"

definition io_return :: "'a \<Rightarrow> 'a io" where
  "io_return x = (Returns x, [])"

definition io_raise :: "exn \<Rightarrow> 'a io" where
  "io_raise e = (Raises e, [])"

definition io_print :: "log_msg \<Rightarrow> unit io" where
  "io_print m = (Returns (), [m])"

definition io_bind :: "'a io \<Rightarrow> ('a \<Rightarrow> 'b io) \<Rightarrow> 'b io" where
  "io_bind m f =
     (case m of
        (Returns x, l) \<Rightarrow> (case f x of (r, l') \<Rightarrow> (r, l @ l'))
      | (Raises e, l) \<Rightarrow> (Raises e, l)
      | (Diverges, l) \<Rightarrow> (Diverges, l))"

text \<open>A call of a library function that raises or returns, and prints nothing.\<close>

definition io_lift :: "exn + 'a \<Rightarrow> 'a io" where
  "io_lift r = (case r of Inl e \<Rightarrow> (Raises e, []) | Inr x \<Rightarrow> (Returns x, []))"

text \<open>A call of a loop that may run forever: \<open>None\<close> is not returning.\<close>

definition io_of_option :: "'a option \<Rightarrow> 'a io" where
  "io_of_option r = (case r of None \<Rightarrow> (Diverges, []) | Some x \<Rightarrow> (Returns x, []))"

text \<open>\<open>try: m except C as e: h e\<close>, with \<open>handles\<close> the test of class \<open>C\<close>.\<close>

definition try_except :: "'a io \<Rightarrow> (exn \<Rightarrow> bool) \<Rightarrow> (exn \<Rightarrow> 'a io) \<Rightarrow> 'a io" where
  "try_except m handles h =
     (case m of
        (Raises e, l) \<Rightarrow>
          (if handles e then (case h e of (r, l') \<Rightarrow> (r, l @ l')) else (Raises e, l))
      | (Returns x, l) \<Rightarrow> (Returns x, l)
      | (Diverges, l) \<Rightarrow> (Diverges, l))"

section \<open>The sliding-window chunker\<close>

text \<open>
  \<open>_split_into_chunks\<close> of \<open>document_processor\<close> (lines 65-85). The \<open>while\<close> loop runs
  forever when \<open>step \<le> 0\<close> on a non-empty text, so it is a partial function.
\<close>

definition CHUNK_SIZE :: int where
  "CHUNK_SIZE = 500"

definition CHUNK_OVERLAP :: int where
  "CHUNK_OVERLAP = 50"

partial_function (option) split_loop ::
  "string \<Rightarrow> int \<Rightarrow> int \<Rightarrow> int \<Rightarrow> string list \<Rightarrow> string list option" where
  "split_loop text chunk_size step start chunks =
     (if start < int (length text) then
        (let end = start + chunk_size;
             chunk = strip (py_slice text start end)
         in split_loop text chunk_size step (start + step)
              (if chunk \<noteq> [] then chunks @ [chunk] else chunks))
      else Some chunks)"

definition split_into_chunks :: "string \<Rightarrow> int \<Rightarrow> int \<Rightarrow> string list option" where
  "split_into_chunks text chunk_size overlap =
     (if text = [] then Some []
      else (let step = chunk_size - overlap in split_loop text chunk_size step 0 []))"

text \<open>\<open>_split_into_chunks\<close> of \<open>pdf_processor\<close> (lines 152-170).\<close>

definition PDF_CHUNK_SIZE :: int where
  "PDF_CHUNK_SIZE = 500"

definition PDF_CHUNK_OVERLAP :: int where
  "PDF_CHUNK_OVERLAP = 50"

partial_function (option) pdf_split_loop ::
  "string \<Rightarrow> int \<Rightarrow> int \<Rightarrow> int \<Rightarrow> string list \<Rightarrow> string list option" where
  "pdf_split_loop text chunk_size step start chunks =
     (if start < int (length text) then
        (let chunk = strip (py_slice text start (start + chunk_size))
         in pdf_split_loop text chunk_size step (start + step)
              (if chunk \<noteq> [] then chunks @ [chunk] else chunks))
      else Some chunks)"

definition pdf_split_into_chunks :: "string \<Rightarrow> int \<Rightarrow> int \<Rightarrow> string list option" where
  "pdf_split_into_chunks text chunk_size overlap =
     (if text = [] then Some []
      else (let step = chunk_size - overlap in pdf_split_loop text chunk_size step 0 []))"

declare split_loop.simps [code] pdf_split_loop.simps [code]

text \<open>
  For the statements about the walk: the offsets the loop visits when \<open>step > 0\<close>, and
  the window \<open>text[start : start + chunk_size]\<close> at an offset inside the text.
\<close>

function window_starts :: "nat \<Rightarrow> nat \<Rightarrow> nat \<Rightarrow> nat list" where
  "window_starts n step start =
     (if start < n \<and> 0 < step then start # window_starts n step (start + step) else [])"
  by pat_completeness auto
termination
  by (relation "measure (\<lambda>(n, step, start). n - start)") auto

declare window_starts.simps [simp del]

definition window :: "string \<Rightarrow> nat \<Rightarrow> nat \<Rightarrow> string" where
  "window text chunk_size start = take chunk_size (drop start text)"

section \<open>The files, as the libraries present them\<close>

text \<open>
  The parsers and the OCR engine are libraries outside the repository. A file is
  modelled by what they return for it: each call returns a value or raises.
  An embedded image is modelled by its name and by the outcome of decoding it and running
  \<open>pytesseract.image_to_string\<close> on it (\<open>pdf_processor\<close> 124-125). The images of a page
  are a lazy sequence: requesting it may raise (117), and iterating it yields images and
  may then raise (121).
\<close>

record pdf_image =
  image_name :: string
  image_ocr :: "exn + string"

record image_list =
  image_items :: "pdf_image list"
  image_iter_error :: "exn option"

record pdf_page =
  page_extract_text :: "exn + string option"
  page_images :: "exn + image_list"

record pdf_reader =
  reader_pages :: "pdf_page list"

text \<open>A paragraph is modelled by its \<open>text\<close>.\<close>

record docx_document =
  doc_paragraphs :: "string list"

record pptx_shape =
  has_text_frame :: bool
  frame_paragraphs :: "string list"

record pptx_slide =
  slide_shapes :: "pptx_shape list"

record presentation =
  prs_slides :: "pptx_slide list"

text \<open>
  A rasterised page is modelled by the outcome of \<open>pytesseract.image_to_string\<close> on it.
  \<open>pdf2image_import\<close> is the outcome of \<open>from pdf2image import convert_from_path\<close>: an
  exception, or the function, which is called with the fixed resolution and poppler path
  of the source and so depends on the file path only.
\<close>

type_synonym page_image = "exn + string"

record libs =
  pypdf_PdfReader :: "string \<Rightarrow> exn + pdf_reader"
  docx_Document :: "string \<Rightarrow> exn + docx_document"
  pptx_Presentation :: "string \<Rightarrow> exn + presentation"
  pdf2image_import :: "exn + (string \<Rightarrow> exn + page_image list)"

section \<open>document_processor\<close>

definition SUPPORTED_EXTENSIONS :: "string set" where
  "SUPPORTED_EXTENSIONS = {''.pdf'', ''.docx'', ''.pptx''}"

text \<open>\<open>_extract_pdf\<close> (lines 18-28).\<close>

fun extract_pdf_loop :: "pdf_page list \<Rightarrow> string list \<Rightarrow> exn + string list" where
  "extract_pdf_loop [] pages = Inr pages"
| "extract_pdf_loop (page # rest) pages =
     (case page_extract_text page of
        Inl e \<Rightarrow> Inl e
      | Inr None \<Rightarrow> extract_pdf_loop rest pages
      | Inr (Some text) \<Rightarrow>
          (if text \<noteq> [] then extract_pdf_loop rest (pages @ [text])
           else extract_pdf_loop rest pages))"

definition extract_pdf :: "libs \<Rightarrow> string \<Rightarrow> exn + string" where
  "extract_pdf libs file_path =
     (case pypdf_PdfReader libs file_path of
        Inl e \<Rightarrow> Inl e
      | Inr reader \<Rightarrow>
          (case extract_pdf_loop (reader_pages reader) [] of
             Inl e \<Rightarrow> Inl e
           | Inr pages \<Rightarrow> Inr (join NL pages)))"

text \<open>\<open>_extract_docx\<close> (lines 31-41).\<close>

fun extract_docx_loop :: "string list \<Rightarrow> string list \<Rightarrow> string list" where
  "extract_docx_loop [] paragraphs = paragraphs"
| "extract_docx_loop (para # rest) paragraphs =
     (let text = strip para
      in if text \<noteq> [] then extract_docx_loop rest (paragraphs @ [text])
         else extract_docx_loop rest paragraphs)"

definition extract_docx :: "libs \<Rightarrow> string \<Rightarrow> exn + string" where
  "extract_docx libs file_path =
     (case docx_Document libs file_path of
        Inl e \<Rightarrow> Inl e
      | Inr doc \<Rightarrow> Inr (join NL (extract_docx_loop (doc_paragraphs doc) [])))"

text \<open>\<open>_extract_pptx\<close> (lines 44-60): the loops over paragraphs, shapes and slides.\<close>

fun pptx_paragraphs_loop :: "string list \<Rightarrow> string list \<Rightarrow> string list" where
  "pptx_paragraphs_loop [] slide_parts = slide_parts"
| "pptx_paragraphs_loop (para # rest) slide_parts =
     (let text = strip para
      in if text \<noteq> [] then pptx_paragraphs_loop rest (slide_parts @ [text])
         else pptx_paragraphs_loop rest slide_parts)"

fun pptx_shapes_loop :: "pptx_shape list \<Rightarrow> string list \<Rightarrow> string list" where
  "pptx_shapes_loop [] slide_parts = slide_parts"
| "pptx_shapes_loop (shape # rest) slide_parts =
     (if has_text_frame shape
      then pptx_shapes_loop rest (pptx_paragraphs_loop (frame_paragraphs shape) slide_parts)
      else pptx_shapes_loop rest slide_parts)"

fun pptx_slides_loop :: "pptx_slide list \<Rightarrow> string list \<Rightarrow> string list" where
  "pptx_slides_loop [] slides_text = slides_text"
| "pptx_slides_loop (slide # rest) slides_text =
     (let slide_parts = pptx_shapes_loop (slide_shapes slide) []
      in if slide_parts \<noteq> [] then pptx_slides_loop rest (slides_text @ [join '' '' slide_parts])
         else pptx_slides_loop rest slides_text)"

definition extract_pptx :: "libs \<Rightarrow> string \<Rightarrow> exn + string" where
  "extract_pptx libs file_path =
     (case pptx_Presentation libs file_path of
        Inl e \<Rightarrow> Inl e
      | Inr prs \<Rightarrow> Inr (join NL (pptx_slides_loop (prs_slides prs) [])))"

text \<open>
  \<open>process_document\<close> (lines 90-137). After the guard one of the three branches is taken;
  the last \<open>else\<close> is the unbound \<open>raw\<close> of an \<open>elif\<close> chain with no branch taken.
\<close>

definition unsupported_message :: "string \<Rightarrow> string" where
  "unsupported_message ext =
     ''Unsupported file type '' @ [CHR 0x27] @ ext @ [CHR 0x27] @ ''. ''
       @ ''Supported types: '' @ join '', '' (sorted_list_of_set SUPPORTED_EXTENSIONS)"

definition process_document :: "libs \<Rightarrow> string \<Rightarrow> string \<Rightarrow> string list io" where
  "process_document libs file_path file_ext =
     (let ext = lower file_ext
      in if ext \<notin> SUPPORTED_EXTENSIONS then io_raise (ValueError (unsupported_message ext))
         else
           io_bind (io_print (DP_Extracting file_path ext)) (\<lambda>_.
           io_bind (io_lift
              (if ext = ''.pdf'' then extract_pdf libs file_path
               else if ext = ''.docx'' then extract_docx libs file_path
               else if ext = ''.pptx'' then extract_pptx libs file_path
               else Inl (UnboundLocalError ''raw''))) (\<lambda>raw.
           (let clean = normalise raw
            in if clean = [] then io_bind (io_print DP_NoText) (\<lambda>_. io_return [])
               else
                 io_bind (io_print (DP_Extracted (length clean))) (\<lambda>_.
                 io_bind (io_of_option (split_into_chunks clean CHUNK_SIZE CHUNK_OVERLAP)) (\<lambda>chunks.
                 io_bind (io_print (DP_Created (length chunks))) (\<lambda>_.
                 io_return chunks)))))))"

section \<open>pdf_processor\<close>

text \<open>\<open>_import_pdf2image\<close> (lines 38-45).\<close>

definition import_pdf2image :: "libs \<Rightarrow> exn + (string \<Rightarrow> exn + page_image list)" where
  "import_pdf2image libs =
     (case pdf2image_import libs of
        Inl e \<Rightarrow>
          (if is_ImportError e
           then Inl (RuntimeError ''pdf2image is not installed. Run: pip install pdf2image'')
           else Inl e)
      | Inr convert_from_path \<Rightarrow> Inr convert_from_path)"

text \<open>\<open>_extract_text_native\<close> (lines 57-68).\<close>

fun native_loop :: "pdf_page list \<Rightarrow> string list \<Rightarrow> exn + string list" where
  "native_loop [] pages = Inr pages"
| "native_loop (page # rest) pages =
     (case page_extract_text page of
        Inl e \<Rightarrow> Inl e
      | Inr r \<Rightarrow>
          (let text = (case r of None \<Rightarrow> [] | Some t \<Rightarrow> t)
           in if strip text \<noteq> [] then native_loop rest (pages @ [text])
              else native_loop rest pages))"

definition extract_text_native :: "pdf_reader \<Rightarrow> exn + string" where
  "extract_text_native reader =
     (case native_loop (reader_pages reader) [] of
        Inl e \<Rightarrow> Inl e
      | Inr pages \<Rightarrow> Inr (normalise (join NL pages)))"

text \<open>\<open>_extract_text_ocr\<close> (lines 75-96); \<open>i\<close> is the index of \<open>enumerate\<close>.\<close>

fun ocr_loop :: "page_image list \<Rightarrow> nat \<Rightarrow> string list \<Rightarrow> string list io" where
  "ocr_loop [] i texts = io_return texts"
| "ocr_loop (page_img # rest) i texts =
     io_bind (io_lift page_img) (\<lambda>raw.
     (let text = strip raw
      in if text \<noteq> []
         then io_bind (io_print (OCR_Page (i + 1) (length text))) (\<lambda>_.
              ocr_loop rest (i + 1) (texts @ [text]))
         else io_bind (io_print (OCR_PageNoText (i + 1))) (\<lambda>_.
              ocr_loop rest (i + 1) texts)))"

definition extract_text_ocr :: "libs \<Rightarrow> string \<Rightarrow> string io" where
  "extract_text_ocr libs file_path =
     io_bind (io_lift (import_pdf2image libs)) (\<lambda>convert_from_path.
     io_bind (io_print OCR_Running) (\<lambda>_.
     io_bind (io_lift (convert_from_path file_path)) (\<lambda>pages.
     io_bind (ocr_loop pages 0 []) (\<lambda>texts.
     io_return (normalise (join NL texts))))))"

text \<open>
  \<open>_extract_images_text\<close> (lines 103-145): the loop over the images of a page, with the
  \<open>try\<close> around one image, and the loop over the pages. Both carry \<open>image_texts\<close> and
  \<open>total_images\<close>.
\<close>

fun images_loop ::
  "nat \<Rightarrow> pdf_image list \<Rightarrow> string list \<Rightarrow> nat \<Rightarrow> (string list \<times> nat) io" where
  "images_loop page_num [] image_texts total_images = io_return (image_texts, total_images)"
| "images_loop page_num (img_obj # rest) image_texts total_images =
     io_bind
       (try_except
          (io_bind (io_lift (image_ocr img_obj)) (\<lambda>raw.
           (let text = strip raw
            in if text \<noteq> []
               then io_bind (io_print (Img_Found (page_num + 1) (image_name img_obj) (length text)))
                      (\<lambda>_. io_return (image_texts @ [text]))
               else io_return image_texts)))
          is_Exception
          (\<lambda>exc. io_bind (io_print (Img_Skipping (page_num + 1) exc)) (\<lambda>_.
                  io_return image_texts)))
       (\<lambda>image_texts. images_loop page_num rest image_texts (total_images + 1))"

fun pages_images_loop ::
  "pdf_page list \<Rightarrow> nat \<Rightarrow> string list \<Rightarrow> nat \<Rightarrow> (string list \<times> nat) io" where
  "pages_images_loop [] page_num image_texts total_images =
     io_return (image_texts, total_images)"
| "pages_images_loop (page # rest) page_num image_texts total_images =
     (case page_images page of
        Inl e \<Rightarrow> pages_images_loop rest (page_num + 1) image_texts total_images
      | Inr images \<Rightarrow>
          io_bind (images_loop page_num (image_items images) image_texts total_images)
            (\<lambda>(image_texts, total_images).
          io_bind (case image_iter_error images of
                     None \<Rightarrow> io_return ()
                   | Some e \<Rightarrow> io_raise e) (\<lambda>_.
          pages_images_loop rest (page_num + 1) image_texts total_images)))"

definition extract_images_text :: "pdf_reader \<Rightarrow> string io" where
  "extract_images_text reader =
     io_bind (pages_images_loop (reader_pages reader) 0 [] 0) (\<lambda>(image_texts, total_images).
     io_bind (if total_images \<noteq> 0
              then io_print (Img_Processed total_images (length image_texts))
              else io_return ()) (\<lambda>_.
     io_return (normalise (join NL image_texts))))"

text \<open>\<open>process_pdf\<close> (lines 177-244); \<open>parts\<close> is passed from stage to stage.\<close>

definition process_pdf :: "libs \<Rightarrow> string \<Rightarrow> string list io" where
  "process_pdf libs file_path =
     io_bind (io_lift (pypdf_PdfReader libs file_path)) (\<lambda>reader.
     io_bind (io_print (S1_Start file_path)) (\<lambda>_.
     io_bind (io_lift (extract_text_native reader)) (\<lambda>native_text.
     io_bind (if native_text \<noteq> []
              then io_bind (io_print (S1_Extracted (length native_text))) (\<lambda>_.
                   io_return [native_text])
              else io_bind (io_print S1_NoTextLayer) (\<lambda>_. io_return [])) (\<lambda>parts.
     io_bind (io_print S2_Start) (\<lambda>_.
     io_bind (try_except
                (io_bind (extract_text_ocr libs file_path) (\<lambda>ocr_text.
                 if ocr_text \<noteq> []
                 then io_bind (io_print (S2_Extracted (length ocr_text))) (\<lambda>_.
                      io_return (parts @ [ocr_text]))
                 else io_bind (io_print S2_NoText) (\<lambda>_. io_return parts)))
                is_RuntimeError
                (\<lambda>e. io_bind (io_print (S2_Skipped e)) (\<lambda>_. io_return parts))) (\<lambda>parts.
     io_bind (io_print S3_Start) (\<lambda>_.
     io_bind (try_except
                (io_bind (extract_images_text reader) (\<lambda>img_text.
                 if img_text \<noteq> []
                 then io_bind (io_print (S3_Extracted (length img_text))) (\<lambda>_.
                      io_return (parts @ [img_text]))
                 else io_bind (io_print S3_NoText) (\<lambda>_. io_return parts)))
                is_RuntimeError
                (\<lambda>e. io_bind (io_print (S3_Skipped e)) (\<lambda>_. io_return parts))) (\<lambda>parts.
     (let combined = normalise (join '' '' parts)
      in if combined = [] then io_bind (io_print PDF_NoText) (\<lambda>_. io_return [])
         else
           io_bind (io_of_option
                      (pdf_split_into_chunks combined PDF_CHUNK_SIZE PDF_CHUNK_OVERLAP)) (\<lambda>chunks.
           io_bind (io_print (PDF_Total (length combined) (length chunks))) (\<lambda>_.
           io_return chunks)))))))))))"

section \<open>vector_store\<close>

text \<open>The metadata dictionary of lines 59-64, with the keys as fields.\<close>

record metadata =
  meta_document_id :: string
  meta_chunk_text :: string
  meta_chunk_index :: nat
  meta_timestamp :: string

text \<open>
  A record of the collection: the embedding, the document text and the metadata stored
  under one id. Embeddings are stored and never computed with, so their type is a
  parameter.
\<close>

record 'e stored_record =
  rec_embedding :: 'e
  rec_document :: string
  rec_metadata :: metadata

type_synonym 'e collection = "(string \<times> 'e stored_record) list"

text \<open>
  Modelled from the spec: the collection of the vector database (ChromaDB, a library
  outside the repository), of which the source calls \<open>add\<close> and \<open>count\<close>. Section 4.4
  and section 6 of the spec: a store keyed by string id that persists the
  (id, embedding, chunk text, metadata) tuples of one call as a batch, where re-using an
  id already present overwrites what is stored under that id (upsert, not append). The
  four lists are parallel; the spec makes equal lengths a precondition and the model
  raises when they differ.
\<close>

definition collection_add ::
  "string list \<Rightarrow> 'e list \<Rightarrow> string list \<Rightarrow> metadata list \<Rightarrow> 'e collection
     \<Rightarrow> exn + 'e collection" where
  "collection_add ids embeddings documents metadatas coll =
     (if length embeddings = length ids \<and> length documents = length ids
         \<and> length metadatas = length ids
      then Inr (fold (\<lambda>(i, e, d, m) c.
                  AList.update i \<lparr>rec_embedding = e, rec_document = d, rec_metadata = m\<rparr> c)
                (zip ids (zip embeddings (zip documents metadatas))) coll)
      else Inl (ValueError ''ids, embeddings, documents and metadatas differ in length''))"

text \<open>
  Modelled from the spec: \<open>count\<close> of the same collection, the total record count of
  section 4.4, one record for each id stored.
\<close>

definition collection_count :: "'e collection \<Rightarrow> nat" where
  "collection_count coll = length coll"

text \<open>
  \<open>store_document\<close> (lines 31-77). \<open>now\<close> is the value of
  \<open>datetime.now(timezone.utc).isoformat()\<close> on line 51, read once before the loop; the
  collection is passed in and returned. \<open>chunk_id\<close> is the f-string of line 57.
\<close>

definition chunk_id :: "string \<Rightarrow> nat \<Rightarrow> string" where
  "chunk_id document_id i = document_id @ ''_chunk_'' @ str_nat i"

fun store_loop ::
  "string \<Rightarrow> string \<Rightarrow> nat \<Rightarrow> string list \<Rightarrow> string list \<Rightarrow> metadata list
     \<Rightarrow> string list \<times> metadata list" where
  "store_loop document_id timestamp i [] ids metadatas = (ids, metadatas)"
| "store_loop document_id timestamp i (chunk_text # rest) ids metadatas =
     store_loop document_id timestamp (i + 1) rest
       (ids @ [chunk_id document_id i])
       (metadatas @ [\<lparr>meta_document_id = document_id, meta_chunk_text = chunk_text,
                      meta_chunk_index = i, meta_timestamp = timestamp\<rparr>])"

definition store_document ::
  "string \<Rightarrow> string \<Rightarrow> string list \<Rightarrow> 'e list \<Rightarrow> 'e collection \<Rightarrow> 'e collection io" where
  "store_document now document_id chunks embeddings coll =
     (if chunks = [] then io_bind (io_print VS_NoChunks) (\<lambda>_. io_return coll)
      else
        (let timestamp = now;
             (ids, metadatas) = store_loop document_id timestamp 0 chunks [] []
         in io_bind (io_lift (collection_add ids embeddings chunks metadatas coll)) (\<lambda>coll.
            io_bind (io_print (VS_Stored (length chunks) document_id (collection_count coll)))
              (\<lambda>_. io_return coll))))"

text \<open>
  For the statements about the stages of \<open>process_pdf\<close>: the text a stage contributes,
  which is empty when the stage raised.
\<close>

definition contribution :: "string result \<Rightarrow> string" where
  "contribution r = (case r of Returns t \<Rightarrow> t | Raises e \<Rightarrow> [] | Diverges \<Rightarrow> [])"

text \<open>
  For the statements about stage 3: the texts that the embedded images of a page add to
  \<open>image_texts\<close> when the iteration over them does not raise. An image whose decoding or
  OCR raised, or whose text is blank, adds nothing; neither does a page whose image list
  cannot be requested.
\<close>

definition image_text :: "pdf_image \<Rightarrow> string list" where
  "image_text img_obj =
     (case image_ocr img_obj of
        Inl e \<Rightarrow> []
      | Inr raw \<Rightarrow> (if strip raw \<noteq> [] then [strip raw] else []))"

definition page_image_texts :: "pdf_page \<Rightarrow> string list" where
  "page_image_texts page =
     (case page_images page of
        Inl e \<Rightarrow> []
      | Inr images \<Rightarrow> concat (map image_text (image_items images)))"

section \<open>Example inputs\<close>

text \<open>
  A PDF of one page with a text layer and one embedded image that cannot be decoded, on a
  machine without \<open>pdf2image\<close>; a Word file of one paragraph and one blank paragraph.
\<close>

definition example_reader :: pdf_reader where
  "example_reader =
     \<lparr>reader_pages =
        [\<lparr>page_extract_text = Inr (Some ''Hello  world''),
          page_images = Inr \<lparr>image_items =
                                [\<lparr>image_name = ''Im0'',
                                  image_ocr = Inl (OtherException ''cannot identify image file'')\<rparr>],
                              image_iter_error = None\<rparr>\<rparr>]\<rparr>"

definition example_libs :: libs where
  "example_libs =
     \<lparr>pypdf_PdfReader = (\<lambda>file_path. Inr example_reader),
      docx_Document = (\<lambda>file_path. Inr \<lparr>doc_paragraphs = ['' Title '', '' '']\<rparr>),
      pptx_Presentation = (\<lambda>file_path. Inl (OtherException ''not a PowerPoint file'')),
      pdf2image_import = Inl (ImportError ''No module named pdf2image'')\<rparr>"

text \<open>The same PDF where \<open>pdf2image\<close> is installed and poppler is not.\<close>

definition example_libs_no_poppler :: libs where
  "example_libs_no_poppler =
     example_libs\<lparr>pdf2image_import :=
       Inr (\<lambda>file_path. Inl (OtherException ''Unable to get page count. Is poppler installed?''))\<rparr>"

text \<open>A PDF whose only page has a text layer that the parser cannot read.\<close>

definition example_bad_reader :: pdf_reader where
  "example_bad_reader =
     \<lparr>reader_pages =
        [\<lparr>page_extract_text = Inl (OtherException ''unexpected end of stream''),
          page_images = Inr \<lparr>image_items = [], image_iter_error = None\<rparr>\<rparr>]\<rparr>"

definition example_libs_bad_page :: libs where
  "example_libs_bad_page =
     example_libs\<lparr>pypdf_PdfReader := (\<lambda>file_path. Inr example_bad_reader)\<rparr>"

text \<open>
  A PDF of two pages. The first has a text layer and two embedded images, one that cannot
  be decoded and one that reads \<open>Fig 1\<close>; the image list of the second cannot be requested.
\<close>

definition example_reader_figures :: pdf_reader where
  "example_reader_figures =
     \<lparr>reader_pages =
        [\<lparr>page_extract_text = Inr (Some ''Hello  world''),
          page_images = Inr \<lparr>image_items =
                                [\<lparr>image_name = ''Im0'',
                                  image_ocr = Inl (OtherException ''cannot identify image file'')\<rparr>,
                                 \<lparr>image_name = ''Im1'', image_ocr = Inr '' Fig 1 ''\<rparr>],
                              image_iter_error = None\<rparr>\<rparr>,
         \<lparr>page_extract_text = Inr None,
          page_images = Inl (OtherException ''invalid page resources'')\<rparr>]\<rparr>"

definition example_libs_figures :: libs where
  "example_libs_figures =
     example_libs\<lparr>pypdf_PdfReader := (\<lambda>file_path. Inr example_reader_figures)\<rparr>"

text \<open>
  A PDF of one page with a text layer, one embedded image that cannot be decoded, and an
  image list whose iteration then raises a \<open>NotImplementedError\<close>, a \<open>RuntimeError\<close>.
\<close>

definition example_reader_lazy :: pdf_reader where
  "example_reader_lazy =
     \<lparr>reader_pages =
        [\<lparr>page_extract_text = Inr (Some ''Hello  world''),
          page_images = Inr \<lparr>image_items =
                                [\<lparr>image_name = ''Im0'',
                                  image_ocr = Inl (OtherException ''cannot identify image file'')\<rparr>],
                              image_iter_error = Some (RuntimeError ''unsupported filter'')\<rparr>\<rparr>]\<rparr>"

definition example_libs_lazy :: libs where
  "example_libs_lazy =
     example_libs\<lparr>pypdf_PdfReader := (\<lambda>file_path. Inr example_reader_lazy)\<rparr>"

section \<open>Properties of the chunker\<close>

subsection \<open>Whitespace and slices\<close>

lemma length_strip_le: "length (strip s) \<le> length s"
proof -
  have "length (strip s) \<le> length (dropWhile isspace s)"
    unfolding strip_def using length_dropWhile_le [of isspace "rev (dropWhile isspace s)"] by simp
  also have "\<dots> \<le> length s" by (rule length_dropWhile_le)
  finally show ?thesis .
qed

lemma strip_all_space: "\<forall>c\<in>set s. isspace c \<Longrightarrow> strip s = []"
proof -
  assume "\<forall>c\<in>set s. isspace c"
  then have h: "dropWhile isspace s = []" by simp
  show ?thesis unfolding strip_def h by simp
qed

lemma strip_id:
  assumes "w \<noteq> []" "\<not> isspace (hd w)" "\<not> isspace (last w)"
  shows "strip w = w"
proof -
  from assms(1,2) have a: "dropWhile isspace w = w" by (cases w) auto
  from assms(1,3) have "dropWhile isspace (rev w) = rev w"
    by (cases w rule: rev_cases) auto
  with a show ?thesis by (simp add: strip_def)
qed

lemma py_slice_window:
  assumes "0 \<le> chunk_size"
  shows "py_slice text (int start) (int start + chunk_size) = window text (nat chunk_size) start"
proof -
  have "nat (int start + chunk_size) - start = nat chunk_size" using assms by linarith
  moreover have "length text - start \<le> nat chunk_size"
    if "int (length text) < int start + chunk_size"
    using that assms by linarith
  ultimately show ?thesis
    using assms by (auto simp: py_slice_def window_def Let_def min_def max_def)
qed

lemma length_window_le: "length (window text chunk_size start) \<le> chunk_size"
  by (simp add: window_def)

lemma set_window_subset: "set (window text chunk_size start) \<subseteq> set text"
  unfolding window_def by (meson set_take_subset set_drop_subset subset_trans)

subsection \<open>The two loops are the same loop\<close>

lemma split_loop_imp_pdf:
  assumes "split_loop text chunk_size step start chunks = Some y"
  shows "pdf_split_loop text chunk_size step start chunks = Some y"
proof (rule split_loop.raw_induct [OF _ assms])
  fix f t c s st ch r
  assume IH: "\<And>t c s st ch r. f t c s st ch = Some r \<Longrightarrow> pdf_split_loop t c s st ch = Some r"
  assume body: "(if st < int (length t) then
        (let end = st + c; chunk = strip (py_slice t st end)
         in f t c s (st + s) (if chunk \<noteq> [] then ch @ [chunk] else ch))
      else Some ch) = Some r"
  show "pdf_split_loop t c s st ch = Some r"
  proof (cases "st < int (length t)")
    case True
    with body have "f t c s (st + s)
        (if strip (py_slice t st (st + c)) \<noteq> [] then ch @ [strip (py_slice t st (st + c))] else ch) = Some r"
      by (simp add: Let_def)
    from IH [OF this] True show ?thesis
      by (subst pdf_split_loop.simps) (simp add: Let_def)
  next
    case False
    with body show ?thesis by (subst pdf_split_loop.simps) simp
  qed
qed

lemma pdf_imp_split_loop:
  assumes "pdf_split_loop text chunk_size step start chunks = Some y"
  shows "split_loop text chunk_size step start chunks = Some y"
proof (rule pdf_split_loop.raw_induct [OF _ assms])
  fix f t c s st ch r
  assume IH: "\<And>t c s st ch r. f t c s st ch = Some r \<Longrightarrow> split_loop t c s st ch = Some r"
  assume body: "(if st < int (length t) then
        (let chunk = strip (py_slice t st (st + c))
         in f t c s (st + s) (if chunk \<noteq> [] then ch @ [chunk] else ch))
      else Some ch) = Some r"
  show "split_loop t c s st ch = Some r"
  proof (cases "st < int (length t)")
    case True
    with body have "f t c s (st + s)
        (if strip (py_slice t st (st + c)) \<noteq> [] then ch @ [strip (py_slice t st (st + c))] else ch) = Some r"
      by (simp add: Let_def)
    from IH [OF this] True show ?thesis
      by (subst split_loop.simps) (simp add: Let_def)
  next
    case False
    with body show ?thesis by (subst split_loop.simps) simp
  qed
qed

lemma split_loop_eq_pdf:
  "pdf_split_loop text chunk_size step start chunks = split_loop text chunk_size step start chunks"
proof (cases "split_loop text chunk_size step start chunks")
  case None
  note doc_none = this
  show ?thesis
  proof (cases "pdf_split_loop text chunk_size step start chunks")
    case None
    with doc_none show ?thesis by simp
  next
    case (Some y)
    from pdf_imp_split_loop [OF this] doc_none show ?thesis by simp
  qed
next
  case (Some y)
  from split_loop_imp_pdf [OF this] Some show ?thesis by simp
qed

subsection \<open>The walk of the loop when the step is positive\<close>

lemma split_loop_walk:
  "0 < step \<Longrightarrow>
   split_loop text chunk_size step (int start) chunks =
     Some (chunks @ filter (\<lambda>c. c \<noteq> [])
        (map (\<lambda>s. strip (py_slice text (int s) (int s + chunk_size)))
             (window_starts (length text) (nat step) start)))"
proof (induction "length text" "nat step" start arbitrary: chunks rule: window_starts.induct)
  case (1 start)
  show ?case
  proof (cases "start < length text")
    case True
    have eq: "int start + step = int (start + nat step)" using 1(2) by simp
    show ?thesis
      using True 1(2) 1(1)[OF _ 1(2)]
      by (subst split_loop.simps, subst window_starts.simps) (simp add: Let_def eq del: of_nat_add)
  next
    case False
    then show ?thesis
      by (subst split_loop.simps, subst window_starts.simps) simp
  qed
qed

lemma split_into_chunks_walk:
  assumes "0 \<le> overlap" "overlap < chunk_size"
  shows "split_into_chunks text chunk_size overlap =
           Some (filter (\<lambda>c. c \<noteq> [])
             (map (\<lambda>s. strip (window text (nat chunk_size) s))
                  (window_starts (length text) (nat (chunk_size - overlap)) 0)))"
proof (cases "text = []")
  case True
  then show ?thesis
    by (simp add: split_into_chunks_def window_starts.simps [of 0])
next
  case False
  have pos: "0 < chunk_size - overlap" and cs: "0 \<le> chunk_size" using assms by simp_all
  show ?thesis
    using False split_loop_walk [OF pos, of "text" chunk_size 0 "[]"]
    by (simp add: split_into_chunks_def Let_def py_slice_window [OF cs])
qed

lemma window_starts_bound: "s \<in> set (window_starts n step start) \<Longrightarrow> start \<le> s \<and> s < n"
  by (induction n step start rule: window_starts.induct)
     (subst (asm) (2) window_starts.simps, auto split: if_splits)

lemma starts_index_bound:
  assumes "0 < (step::nat)"
  shows "(j < (n + step - 1) div step) = (j * step < n)"
proof -
  have "(j < (n + step - 1) div step) = (Suc j \<le> (n + step - 1) div step)" by auto
  also have "\<dots> = (Suc j * step \<le> n + step - 1)"
    using assms by (rule less_eq_div_iff_mult_less_eq)
  also have "\<dots> = (j * step < n)" using assms by (simp; arith)
  finally show ?thesis .
qed

lemma window_starts_from:
  assumes "0 < step"
  shows "window_starts n step (j * step) = map (\<lambda>k. k * step) [j ..< (n + step - 1) div step]"
proof (induction "n - j * step" arbitrary: j rule: less_induct)
  case less
  show ?case
  proof (cases "j * step < n")
    case True
    then have jlt: "j < (n + step - 1) div step"
      using starts_index_bound [OF assms, of j n] by blast
    have "n - Suc j * step < n - j * step" using True assms by simp
    from less [OF this] True assms jlt show ?thesis
      by (subst window_starts.simps) (simp add: upt_conv_Cons add.commute)
  next
    case False
    then have "\<not> j < (n + step - 1) div step"
      using starts_index_bound [OF assms, of j n] by blast
    with False show ?thesis by (subst window_starts.simps) simp
  qed
qed

lemma window_starts_mult:
  "0 < step \<Longrightarrow> window_starts n step 0 = map (\<lambda>k. k * step) [0 ..< (n + step - 1) div step]"
  using window_starts_from [of step n 0] by simp

lemma pdf_split_into_chunks_eq:
  "pdf_split_into_chunks text chunk_size overlap = split_into_chunks text chunk_size overlap"
  by (simp add: pdf_split_into_chunks_def split_into_chunks_def split_loop_eq_pdf)

subsection \<open>The claims about the chunker\<close>

text \<open>
  C10. The chunker of \<open>pdf_processor\<close> and the chunker of \<open>document_processor\<close>
  return the same list for every text, chunk size and overlap; where one runs forever
  (a non-empty text and \<open>chunk_size \<le> overlap\<close>), so does the other.
\<close>

theorem split_into_chunks_modules_agree:
  "pdf_split_into_chunks text chunk_size overlap = split_into_chunks text chunk_size overlap"
  by (rule pdf_split_into_chunks_eq)

text \<open>
  C4. When \<open>0 \<le> overlap < chunk_size\<close>, both chunkers return for every text. The
  offsets visited are \<open>0, step, 2 * step, \<dots>\<close> with \<open>step = chunk_size - overlap\<close>, strictly
  increasing, one for each \<open>k\<close> with \<open>k * step < len(text)\<close>: the loop stops at the first
  offset that is not below \<open>len(text)\<close>.
\<close>

theorem chunker_terminates:
  assumes "0 \<le> overlap" and "overlap < chunk_size"
  shows "\<exists>chunks. split_into_chunks text chunk_size overlap = Some chunks
           \<and> pdf_split_into_chunks text chunk_size overlap = Some chunks
           \<and> chunks = filter (\<lambda>c. c \<noteq> [])
                 (map (\<lambda>k. strip (window text (nat chunk_size) (k * nat (chunk_size - overlap))))
                      [0 ..< (length text + nat (chunk_size - overlap) - 1) div nat (chunk_size - overlap)])"
proof -
  have pos: "0 < nat (chunk_size - overlap)" using assms by simp
  show ?thesis
    unfolding pdf_split_into_chunks_eq
    by (simp add: split_into_chunks_walk [OF assms] window_starts_mult [OF pos] comp_def)
qed

text \<open>The chunker on a text of twelve characters, with windows of five and overlap three.\<close>

theorem chunker_terminates_witness:
  "(0::int) \<le> 3 \<and> (3::int) < 5
   \<and> split_into_chunks ''abcdefghijkl'' 5 3 = Some [''abcde'', ''cdefg'', ''efghi'', ''ghijk'', ''ijkl'', ''kl'']
   \<and> pdf_split_into_chunks ''abcdefghijkl'' 5 3 = Some [''abcde'', ''cdefg'', ''efghi'', ''ghijk'', ''ijkl'', ''kl'']"
  using chunker_terminates [of 3 5 "''abcdefghijkl''"]
  by (simp add: window_def strip_def isspace_def upt_conv_Cons)

text \<open>
  C8. The empty text has no chunks, whatever the parameters; and when
  \<open>0 \<le> overlap < chunk_size\<close>, a text of whitespace only has no chunks: every window is
  trimmed to the empty string and dropped.
\<close>

theorem whitespace_text_has_no_chunks:
  "split_into_chunks [] chunk_size overlap = Some []
   \<and> (0 \<le> overlap \<and> overlap < chunk_size \<and> (\<forall>c\<in>set text. isspace c)
        \<longrightarrow> split_into_chunks text chunk_size overlap = Some [])"
proof (intro conjI impI)
  show "split_into_chunks [] chunk_size overlap = Some []"
    by (simp add: split_into_chunks_def)
next
  assume h: "0 \<le> overlap \<and> overlap < chunk_size \<and> (\<forall>c\<in>set text. isspace c)"
  then have ws: "strip (window text n s) = []" for n s
    using set_window_subset [of "text" n s] by (intro strip_all_space) blast
  from h have "0 \<le> overlap" "overlap < chunk_size" by simp_all
  from split_into_chunks_walk [OF this] show "split_into_chunks text chunk_size overlap = Some []"
    by (simp add: ws)
qed

text \<open>A space, a newline and a tab, with windows of two and overlap one.\<close>

theorem whitespace_text_has_no_chunks_witness:
  "(0::int) \<le> 1 \<and> (1::int) < 2
   \<and> isspace (CHR '' '') \<and> isspace (CHR 0x0A) \<and> isspace (CHR 0x09)
   \<and> split_into_chunks [CHR '' '', CHR 0x0A, CHR 0x09] 2 1 = Some []"
  using whitespace_text_has_no_chunks [of 2 1 "[CHR '' '', CHR 0x0A, CHR 0x09]"]
  by (simp add: isspace_def)

text \<open>
  C3, as stated, fails where the earlier of two consecutive windows is cut short by the end
  of the text. With twelve characters, windows of five and overlap three, the windows at
  offsets 8 and 10 both give a chunk; the last three characters of the first are \<open>jkl\<close>,
  the later window has only the two characters \<open>kl\<close>.
\<close>

theorem overlap_fails_at_truncated_window:
  "split_into_chunks ''abcdefghijkl'' 5 3
     = Some [''abcde'', ''cdefg'', ''efghi'', ''ghijk'', ''ijkl'', ''kl'']
   \<and> py_slice ''abcdefghijkl'' 8 (8 + 5) = ''ijkl''
   \<and> py_slice ''abcdefghijkl'' 10 (10 + 5) = ''kl''
   \<and> drop (length ''ijkl'' - 3) ''ijkl'' = ''jkl''
   \<and> take 3 ''kl'' = ''kl''"
  by (simp add: split_into_chunks_def split_loop.simps py_slice_def strip_def isspace_def)

text \<open>A full window and the window one step later share \<open>overlap\<close> characters.\<close>

lemma window_overlap:
  assumes "overlap \<le> chunk_size" and "start + chunk_size \<le> length text"
  shows "drop (length (window text chunk_size start) - overlap) (window text chunk_size start)
           = take overlap (window text chunk_size (start + (chunk_size - overlap)))"
    and "length (take overlap (window text chunk_size (start + (chunk_size - overlap)))) = overlap"
proof -
  have len: "length (window text chunk_size start) = chunk_size"
    using assms by (simp add: window_def)
  have "drop (chunk_size - overlap) (take chunk_size (drop start text))
          = take overlap (drop (chunk_size - overlap) (drop start text))"
    using assms(1) by (simp add: drop_take)
  also have "\<dots> = take overlap (take chunk_size (drop (start + (chunk_size - overlap)) text))"
    using assms(1) by (simp add: add.commute min_def)
  finally show "drop (length (window text chunk_size start) - overlap) (window text chunk_size start)
           = take overlap (window text chunk_size (start + (chunk_size - overlap)))"
    unfolding len by (simp add: window_def)
  show "length (take overlap (window text chunk_size (start + (chunk_size - overlap)))) = overlap"
    using assms by (simp add: window_def)
qed

text \<open>
  Where the earlier window is cut short by the end of the text and the next window still
  starts inside the text, the later window is the rest of the earlier one after its first
  \<open>chunk_size - overlap\<close> characters, and it has fewer than \<open>overlap\<close> characters.
\<close>

lemma window_truncated:
  assumes "overlap \<le> chunk_size" and "length text < start + chunk_size"
    and "start + (chunk_size - overlap) < length text"
  shows "window text chunk_size (start + (chunk_size - overlap))
           = drop (chunk_size - overlap) (window text chunk_size start)"
    and "length (window text chunk_size (start + (chunk_size - overlap))) < overlap"
    and "window text chunk_size (start + (chunk_size - overlap)) \<noteq> []"
proof -
  have w1: "window text chunk_size start = drop start text"
    using assms(2) by (simp add: window_def)
  have w2: "window text chunk_size (start + (chunk_size - overlap))
              = drop (start + (chunk_size - overlap)) text"
    using assms(2) by (simp add: window_def)
  show "window text chunk_size (start + (chunk_size - overlap))
           = drop (chunk_size - overlap) (window text chunk_size start)"
    unfolding w1 w2 by (simp add: add.commute)
  show "length (window text chunk_size (start + (chunk_size - overlap))) < overlap"
    unfolding w2 using assms by simp
  show "window text chunk_size (start + (chunk_size - overlap)) \<noteq> []"
    unfolding w2 using assms(3) by simp
qed

text \<open>
  C3, amended. When \<open>0 \<le> overlap < chunk_size\<close>, the chunks are the non-empty trimmed
  windows at the offsets visited, and every chunk has at most \<open>chunk_size\<close> characters. For
  every offset whose window lies within the text (\<open>start + chunk_size \<le> len(text)\<close>), the
  last \<open>overlap\<close> characters of that window are the first \<open>overlap\<close> characters of the
  window one step later, and these are exactly \<open>overlap\<close> characters. For every offset
  whose window is cut short by the end of the text (\<open>len(text) < start + chunk_size\<close>) while
  the window one step later still starts inside the text, the later window is not empty,
  it is what is left of the earlier window after its first \<open>chunk_size - overlap\<close>
  characters, and it has fewer than \<open>overlap\<close> characters.
\<close>

theorem chunk_length_and_overlap:
  assumes "0 \<le> overlap" and "overlap < chunk_size"
  shows "\<exists>chunks. split_into_chunks text chunk_size overlap = Some chunks
           \<and> chunks = filter (\<lambda>c. c \<noteq> [])
                 (map (\<lambda>s. strip (py_slice text (int s) (int s + chunk_size)))
                      (window_starts (length text) (nat (chunk_size - overlap)) 0))
           \<and> (\<forall>c\<in>set chunks. int (length c) \<le> chunk_size)
           \<and> (\<forall>start. int start + chunk_size \<le> int (length text) \<longrightarrow>
                 drop (length (py_slice text (int start) (int start + chunk_size)) - nat overlap)
                      (py_slice text (int start) (int start + chunk_size))
                   = take (nat overlap)
                       (py_slice text (int start + (chunk_size - overlap))
                          (int start + (chunk_size - overlap) + chunk_size))
                 \<and> length (take (nat overlap)
                       (py_slice text (int start + (chunk_size - overlap))
                          (int start + (chunk_size - overlap) + chunk_size))) = nat overlap)
           \<and> (\<forall>start. int (length text) < int start + chunk_size
                   \<and> int start + (chunk_size - overlap) < int (length text) \<longrightarrow>
                 py_slice text (int start + (chunk_size - overlap))
                      (int start + (chunk_size - overlap) + chunk_size) \<noteq> []
                 \<and> py_slice text (int start + (chunk_size - overlap))
                      (int start + (chunk_size - overlap) + chunk_size)
                   = drop (nat (chunk_size - overlap))
                       (py_slice text (int start) (int start + chunk_size))
                 \<and> length (py_slice text (int start + (chunk_size - overlap))
                      (int start + (chunk_size - overlap) + chunk_size)) < nat overlap)"
proof -
  have cs: "0 \<le> chunk_size" using assms by simp
  have step: "int start + (chunk_size - overlap) = int (start + (nat chunk_size - nat overlap))" for start
    using assms by simp
  have nstep: "nat (chunk_size - overlap) = nat chunk_size - nat overlap"
    using assms by simp
  have lens: "int (length c) \<le> chunk_size"
    if "c \<in> set (filter (\<lambda>c. c \<noteq> [])
           (map (\<lambda>s. strip (window text (nat chunk_size) s))
                (window_starts (length text) (nat chunk_size - nat overlap) 0)))" for c
  proof -
    from that obtain s where "c = strip (window text (nat chunk_size) s)" by auto
    then have "length c \<le> nat chunk_size"
      using length_strip_le [of "window text (nat chunk_size) s"]
            length_window_le [of "text" "nat chunk_size" s] by simp
    then show ?thesis using cs by simp
  qed
  have ov: "drop (length (window text (nat chunk_size) start) - nat overlap)
                 (window text (nat chunk_size) start)
              = take (nat overlap) (window text (nat chunk_size) (start + (nat chunk_size - nat overlap)))
            \<and> length (take (nat overlap)
                 (window text (nat chunk_size) (start + (nat chunk_size - nat overlap)))) = nat overlap"
    if "int start + chunk_size \<le> int (length text)" for start
  proof -
    have a: "nat overlap \<le> nat chunk_size" using assms by simp
    have b: "start + nat chunk_size \<le> length text" using that cs by linarith
    from window_overlap [OF a b] show ?thesis by simp
  qed
  have tr: "window text (nat chunk_size) (start + (nat chunk_size - nat overlap)) \<noteq> []
            \<and> window text (nat chunk_size) (start + (nat chunk_size - nat overlap))
                = drop (nat chunk_size - nat overlap) (window text (nat chunk_size) start)
            \<and> length (window text (nat chunk_size) (start + (nat chunk_size - nat overlap)))
                < nat overlap"
    if "int (length text) < int start + chunk_size
          \<and> int (start + (nat chunk_size - nat overlap)) < int (length text)" for start
  proof -
    have a: "nat overlap \<le> nat chunk_size" using assms by simp
    have b: "length text < start + nat chunk_size" using that cs by linarith
    have c: "start + (nat chunk_size - nat overlap) < length text" using that by linarith
    from window_truncated [OF a b c] show ?thesis by simp
  qed
  show ?thesis
    unfolding split_into_chunks_walk [OF assms] step nstep py_slice_window [OF cs]
    using lens ov tr by blast
qed

text \<open>
  The windows at offsets 2 and 4 of the twelve characters share \<open>efg\<close>; the window at
  offset 8 is cut short to \<open>ijkl\<close>, and the window at 10 is its rest \<open>kl\<close>.
\<close>

theorem chunk_length_and_overlap_witness:
  "(0::int) \<le> 3 \<and> (3::int) < 5
   \<and> split_into_chunks ''abcdefghijkl'' 5 3
        = Some [''abcde'', ''cdefg'', ''efghi'', ''ghijk'', ''ijkl'', ''kl'']
   \<and> int 2 + 5 \<le> int (length ''abcdefghijkl'')
   \<and> drop (length (py_slice ''abcdefghijkl'' 2 (2 + 5)) - 3) (py_slice ''abcdefghijkl'' 2 (2 + 5))
        = take 3 (py_slice ''abcdefghijkl'' (2 + (5 - 3)) (2 + (5 - 3) + 5))
   \<and> int (length ''abcdefghijkl'') < int 8 + 5
   \<and> int 8 + (5 - 3) < int (length ''abcdefghijkl'')
   \<and> py_slice ''abcdefghijkl'' (8 + (5 - 3)) (8 + (5 - 3) + 5)
        = drop 2 (py_slice ''abcdefghijkl'' 8 (8 + 5))
   \<and> length (py_slice ''abcdefghijkl'' (8 + (5 - 3)) (8 + (5 - 3) + 5)) < 3"
proof -
  have p1: "(0::int) \<le> 3" and p2: "(3::int) < 5" by simp_all
  from chunk_length_and_overlap [OF p1 p2, of "''abcdefghijkl''"]
  obtain chunks where
    c: "split_into_chunks ''abcdefghijkl'' 5 3 = Some chunks"
    and o: "\<forall>start. int start + 5 \<le> int (length ''abcdefghijkl'') \<longrightarrow>
                 drop (length (py_slice ''abcdefghijkl'' (int start) (int start + 5)) - nat 3)
                      (py_slice ''abcdefghijkl'' (int start) (int start + 5))
                   = take (nat 3)
                       (py_slice ''abcdefghijkl'' (int start + (5 - 3))
                          (int start + (5 - 3) + 5))
                 \<and> length (take (nat 3)
                       (py_slice ''abcdefghijkl'' (int start + (5 - 3))
                          (int start + (5 - 3) + 5))) = nat 3"
    and t: "\<forall>start. int (length ''abcdefghijkl'') < int start + 5
                   \<and> int start + (5 - 3) < int (length ''abcdefghijkl'') \<longrightarrow>
                 py_slice ''abcdefghijkl'' (int start + (5 - 3)) (int start + (5 - 3) + 5) \<noteq> []
                 \<and> py_slice ''abcdefghijkl'' (int start + (5 - 3)) (int start + (5 - 3) + 5)
                   = drop (nat (5 - 3)) (py_slice ''abcdefghijkl'' (int start) (int start + 5))
                 \<and> length (py_slice ''abcdefghijkl'' (int start + (5 - 3))
                      (int start + (5 - 3) + 5)) < nat 3"
    by blast
  from o [rule_format, of 2] have a:
    "drop (length (py_slice ''abcdefghijkl'' 2 (2 + 5)) - 3) (py_slice ''abcdefghijkl'' 2 (2 + 5))
        = take 3 (py_slice ''abcdefghijkl'' (2 + (5 - 3)) (2 + (5 - 3) + 5))"
    by simp
  have q: "int (length ''abcdefghijkl'') < int 8 + 5
             \<and> int 8 + (5 - 3) < int (length ''abcdefghijkl'')" by simp
  from t [rule_format, OF q] have b0:
    "py_slice ''abcdefghijkl'' (int 8 + (5 - 3)) (int 8 + (5 - 3) + 5)
        = drop (nat (5 - 3)) (py_slice ''abcdefghijkl'' (int 8) (int 8 + 5))"
    "length (py_slice ''abcdefghijkl'' (int 8 + (5 - 3)) (int 8 + (5 - 3) + 5)) < nat 3"
    by blast+
  have n: "int 8 = 8" "nat (5 - 3) = 2" "nat 3 = 3" by simp_all
  from b0 have b:
    "py_slice ''abcdefghijkl'' (8 + (5 - 3)) (8 + (5 - 3) + 5)
        = drop 2 (py_slice ''abcdefghijkl'' 8 (8 + 5))"
    "length (py_slice ''abcdefghijkl'' (8 + (5 - 3)) (8 + (5 - 3) + 5)) < 3"
    unfolding n by this+
  have "split_into_chunks ''abcdefghijkl'' 5 3
        = Some [''abcde'', ''cdefg'', ''efghi'', ''ghijk'', ''ijkl'', ''kl'']"
    by (simp add: split_into_chunks_def split_loop.simps py_slice_def strip_def isspace_def)
  with a b show ?thesis by simp
qed

text \<open>
  C7. A text of 1200 characters with no whitespace at the first and last position of the
  windows at 0, 450 and 900 gives, with chunk size 500 and overlap 50, exactly the three
  windows as chunks; the last has 300 characters.
\<close>

theorem scenario_1200_characters:
  assumes "length text = 1200"
    and "\<not> isspace (text ! 0)" and "\<not> isspace (text ! 499)"
    and "\<not> isspace (text ! 450)" and "\<not> isspace (text ! 949)"
    and "\<not> isspace (text ! 900)" and "\<not> isspace (text ! 1199)"
  shows "\<exists>c1 c2 c3. split_into_chunks text 500 50 = Some [c1, c2, c3]
           \<and> c1 = py_slice text 0 500 \<and> c2 = py_slice text 450 950 \<and> c3 = py_slice text 900 1400
           \<and> length c1 = 500 \<and> length c2 = 500 \<and> length c3 = 300"
proof -
  have starts: "window_starts 1200 450 0 = [0, 450, 900]"
    by (simp add: window_starts.simps)
  have w: "strip (window text 500 s) = window text 500 s"
    if "s < 1200" and "\<not> isspace (text ! s)" and "\<not> isspace (text ! (min (s + 500) 1200 - 1))" for s
  proof (rule strip_id)
    show "window text 500 s \<noteq> []" using that assms(1) by (simp add: window_def)
    show "\<not> isspace (hd (window text 500 s))"
      using that assms(1) by (simp add: window_def hd_drop_conv_nth)
    have ne: "window text 500 s \<noteq> []" using that assms(1) by (simp add: window_def)
    have len: "length (window text 500 s) = min 500 (1200 - s)"
      using assms(1) by (simp add: window_def)
    have idx: "s + (min 500 (1200 - s) - 1) = min (s + 500) 1200 - 1" using that(1) by arith
    have "last (window text 500 s) = window text 500 s ! (min 500 (1200 - s) - 1)"
      using last_conv_nth [OF ne] len by simp
    also have "\<dots> = text ! (s + (min 500 (1200 - s) - 1))"
      using that(1) assms(1) by (simp add: window_def)
    finally have "last (window text 500 s) = text ! (min (s + 500) 1200 - 1)"
      unfolding idx .
    then show "\<not> isspace (last (window text 500 s))" using that by simp
  qed
  have sl: "py_slice text 0 500 = window text 500 0" "py_slice text 450 950 = window text 500 450"
    "py_slice text 900 1400 = window text 500 900"
    using py_slice_window [of 500 "text" 0] py_slice_window [of 500 "text" 450]
      py_slice_window [of 500 "text" 900] by simp_all
  have "split_into_chunks text 500 50
          = Some (filter (\<lambda>c. c \<noteq> []) [window text 500 0, window text 500 450, window text 500 900])"
    using split_into_chunks_walk [of 50 500 "text"] assms w [of 0] w [of 450] w [of 900]
    by (simp add: starts)
  moreover have "length (window text 500 0) = 500" "length (window text 500 450) = 500"
    "length (window text 500 900) = 300"
    using assms(1) by (simp_all add: window_def)
  ultimately show ?thesis unfolding sl by auto
qed

text \<open>The text of 1200 letters \<open>a\<close>.\<close>

theorem scenario_1200_characters_witness:
  "length (replicate 1200 (CHR ''a'')) = 1200 \<and> \<not> isspace (CHR ''a'')
   \<and> split_into_chunks (replicate 1200 (CHR ''a'')) 500 50
       = Some [replicate 500 (CHR ''a''), replicate 500 (CHR ''a''), replicate 300 (CHR ''a'')]"
  using scenario_1200_characters [of "replicate 1200 (CHR ''a'')"]
  by (auto simp: isspace_def py_slice_def)

section \<open>Properties of the storage layer\<close>

subsection \<open>Decimal numerals\<close>

lemma digit_cases:
  assumes "d < (10::nat)"
  obtains "d = 0" | "d = 1" | "d = 2" | "d = 3" | "d = 4"
    | "d = 5" | "d = 6" | "d = 7" | "d = 8" | "d = 9"
proof -
  from assms have "d = 0 \<or> d = 1 \<or> d = 2 \<or> d = 3 \<or> d = 4
      \<or> d = 5 \<or> d = 6 \<or> d = 7 \<or> d = 8 \<or> d = 9" by presburger
  with that show thesis by blast
qed

lemma of_char_digit_char: "d < 10 \<Longrightarrow> (of_char (digit_char d) :: nat) = 48 + d"
  by (erule digit_cases) (simp_all add: digit_char_def)

lemma str_nat_decode:
  "foldl (\<lambda>acc c. acc * 10 + (of_char c - 48)) 0 (str_nat n) = n"
proof (induction n rule: str_nat.induct)
  case (1 n)
  show ?case
  proof (cases "n < 10")
    case True
    then show ?thesis by (subst str_nat.simps) (simp add: of_char_digit_char)
  next
    case False
    have "n mod 10 < 10" by simp
    then have "of_char (digit_char (n mod 10)) = 48 + n mod 10"
      by (rule of_char_digit_char)
    with False 1 show ?thesis by (subst str_nat.simps) simp
  qed
qed

lemma str_nat_inj: "str_nat a = str_nat b \<Longrightarrow> a = b"
  by (metis str_nat_decode)

lemma digit_char_not_underscore: "d < 10 \<Longrightarrow> digit_char d \<noteq> CHR ''_''"
  by (erule digit_cases) (simp_all add: digit_char_def)

lemma str_nat_no_underscore: "CHR ''_'' \<notin> set (str_nat n)"
proof (induction n rule: str_nat.induct)
  case (1 n)
  show ?case
  proof (cases "n < 10")
    case True
    then show ?thesis
      using digit_char_not_underscore [of n] by (subst str_nat.simps) auto
  next
    case False
    have "n mod 10 < 10" by simp
    from digit_char_not_underscore [OF this] False 1 show ?thesis
      by (subst str_nat.simps) auto
  qed
qed

subsection \<open>The id determines the document and the index\<close>

lemma chunk_id_suffix:
  "takeWhile (\<lambda>c. c \<noteq> CHR ''_'') (rev (chunk_id d i)) = rev (str_nat i)"
proof -
  have "rev (chunk_id d i) = rev (str_nat i) @ CHR ''_'' # (rev ''_chunk'' @ rev d)"
    by (simp add: chunk_id_def)
  moreover have "\<forall>c\<in>set (rev (str_nat i)). c \<noteq> CHR ''_''"
    using str_nat_no_underscore [of i] by auto
  ultimately show ?thesis by (simp add: takeWhile_tail)
qed

lemma chunk_id_inj:
  assumes "chunk_id d1 i1 = chunk_id d2 i2"
  shows "d1 = d2 \<and> i1 = i2"
proof -
  from assms have "rev (str_nat i1) = rev (str_nat i2)"
    using chunk_id_suffix [of d1 i1] chunk_id_suffix [of d2 i2] by simp
  then have i: "i1 = i2" using str_nat_inj by simp
  with assms have "d1 = d2" by (simp add: chunk_id_def)
  with i show ?thesis by simp
qed

subsection \<open>The loop that builds ids and metadata\<close>

lemma store_loop_eq:
  "store_loop d ts i chunks ids metadatas =
     (ids @ map (\<lambda>(k, c). chunk_id d k) (enumerate i chunks),
      metadatas @ map (\<lambda>(k, c). \<lparr>meta_document_id = d, meta_chunk_text = c,
                                  meta_chunk_index = k, meta_timestamp = ts\<rparr>)
                    (enumerate i chunks))"
  by (induction chunks arbitrary: i ids metadatas) simp_all

lemma store_loop_ids:
  "fst (store_loop d ts 0 chunks [] []) = map (chunk_id d) [0 ..< length chunks]"
proof -
  have a: "(\<lambda>(k, c). chunk_id d k) = chunk_id d \<circ> fst" by auto
  have "fst (store_loop d ts 0 chunks [] []) = map (chunk_id d \<circ> fst) (enumerate 0 chunks)"
    by (simp add: store_loop_eq a)
  also have "\<dots> = map (chunk_id d) (map fst (enumerate 0 chunks))"
    by (simp only: map_map)
  also have "\<dots> = map (chunk_id d) [0 ..< length chunks]"
    by (simp only: map_fst_enumerate) simp
  finally show ?thesis .
qed

lemma store_loop_lengths:
  "length (fst (store_loop d ts 0 chunks [] [])) = length chunks"
  "length (snd (store_loop d ts 0 chunks [] [])) = length chunks"
  by (simp_all add: store_loop_eq)

lemma store_loop_nth:
  assumes "i < length chunks"
  shows "fst (store_loop d ts 0 chunks [] []) ! i = chunk_id d i"
    and "snd (store_loop d ts 0 chunks [] []) ! i =
           \<lparr>meta_document_id = d, meta_chunk_text = chunks ! i,
            meta_chunk_index = i, meta_timestamp = ts\<rparr>"
  using assms by (simp_all add: store_loop_eq nth_enumerate_eq)

subsection \<open>The collection as a keyed store\<close>

lemma fold_update_keys:
  "fst ` set (fold (\<lambda>(k, v). AList.update k v) kvs al) = fst ` set al \<union> fst ` set kvs"
proof (induction kvs arbitrary: al)
  case Nil
  then show ?case by simp
next
  case (Cons kv kvs)
  obtain k v where kv: "kv = (k, v)" by (cases kv)
  have "fst ` set (fold (\<lambda>(k, v). AList.update k v) (kv # kvs) al)
          = fst ` set (AList.update k v al) \<union> fst ` set kvs"
    by (simp add: kv Cons.IH)
  also have "\<dots> = fst ` set al \<union> fst ` set (kv # kvs)"
    unfolding AList.dom_update by (simp add: kv)
  finally show ?case .
qed

lemma length_update_present:
  "k \<in> fst ` set al \<Longrightarrow> length (AList.update k v al) = length al"
  using arg_cong [OF AList.update_keys [of k v al], of length] by simp

lemma fold_update_length_present:
  "fst ` set kvs \<subseteq> fst ` set al \<Longrightarrow>
   length (fold (\<lambda>(k, v). AList.update k v) kvs al) = length al"
proof (induction kvs arbitrary: al)
  case Nil
  then show ?case by simp
next
  case (Cons kv kvs)
  obtain k v where kv: "kv = (k, v)" by (cases kv)
  from Cons.prems kv have k: "k \<in> fst ` set al" by simp
  have "fst ` set kvs \<subseteq> fst ` set (AList.update k v al)"
    using Cons.prems by (auto simp: AList.dom_update)
  from Cons.IH [OF this] k show ?case
    by (simp add: kv length_update_present)
qed

lemma fold_update_other:
  "k \<notin> fst ` set kvs \<Longrightarrow>
   map_of (fold (\<lambda>(k, v). AList.update k v) kvs al) k = map_of al k"
  by (induction kvs arbitrary: al) (auto simp: AList.update_conv')

lemma fold_update_lookup:
  "distinct (map fst kvs) \<Longrightarrow> (k, v) \<in> set kvs \<Longrightarrow>
   map_of (fold (\<lambda>(k, v). AList.update k v) kvs al) k = Some v"
proof (induction kvs arbitrary: al)
  case Nil
  then show ?case by simp
next
  case (Cons kv kvs)
  obtain k' v' where kv: "kv = (k', v')" by (cases kv)
  show ?case
  proof (cases "(k, v) = (k', v')")
    case True
    with Cons.prems(1) kv have "k \<notin> fst ` set kvs" by auto
    from fold_update_other [OF this] True show ?thesis
      by (simp add: kv AList.update_conv')
  next
    case False
    with Cons.prems kv have "(k, v) \<in> set kvs" and "distinct (map fst kvs)" by auto
    from Cons.IH [OF this(2) this(1)] show ?thesis by (simp add: kv)
  qed
qed

lemma collection_add_fold:
  assumes "length embeddings = length ids" "length documents = length ids"
    "length metadatas = length ids"
  shows "collection_add ids embeddings documents metadatas coll =
           Inr (fold (\<lambda>(k, v). AList.update k v)
                  (zip ids (map (\<lambda>i. \<lparr>rec_embedding = embeddings ! i, rec_document = documents ! i,
                                      rec_metadata = metadatas ! i\<rparr>) [0 ..< length ids]))
                  coll)"
proof -
  have z: "zip ids (zip embeddings (zip documents metadatas))
             = map (\<lambda>i. (ids ! i, embeddings ! i, documents ! i, metadatas ! i)) [0 ..< length ids]"
    using assms by (intro nth_equalityI) simp_all
  have z': "zip ids (map (\<lambda>i. \<lparr>rec_embedding = embeddings ! i, rec_document = documents ! i,
                                      rec_metadata = metadatas ! i\<rparr>) [0 ..< length ids])
             = map (\<lambda>i. (ids ! i, \<lparr>rec_embedding = embeddings ! i, rec_document = documents ! i,
                                      rec_metadata = metadatas ! i\<rparr>)) [0 ..< length ids]"
    by (intro nth_equalityI) simp_all
  show ?thesis
    using assms unfolding collection_add_def z z'
    by (simp add: fold_map comp_def)
qed

lemma distinct_chunk_ids: "distinct (map (chunk_id d) [0 ..< n])"
  by (simp add: distinct_map inj_on_def) (metis chunk_id_inj)

text \<open>One call of \<open>store_document\<close> with chunks and as many embeddings.\<close>

lemma store_document_stores:
  assumes "chunks \<noteq> []" and "length embeddings = length chunks"
  shows "store_document now d chunks embeddings coll =
           (Returns (fold (\<lambda>(k, v). AList.update k v)
               (zip (map (chunk_id d) [0 ..< length chunks])
                    (map (\<lambda>i. \<lparr>rec_embedding = embeddings ! i, rec_document = chunks ! i,
                              rec_metadata = \<lparr>meta_document_id = d, meta_chunk_text = chunks ! i,
                                 meta_chunk_index = i, meta_timestamp = now\<rparr>\<rparr>)
                         [0 ..< length chunks]))
               coll),
            [VS_Stored (length chunks) d
               (collection_count (fold (\<lambda>(k, v). AList.update k v)
               (zip (map (chunk_id d) [0 ..< length chunks])
                    (map (\<lambda>i. \<lparr>rec_embedding = embeddings ! i, rec_document = chunks ! i,
                              rec_metadata = \<lparr>meta_document_id = d, meta_chunk_text = chunks ! i,
                                 meta_chunk_index = i, meta_timestamp = now\<rparr>\<rparr>)
                         [0 ..< length chunks]))
               coll))])"
proof -
  obtain ids metadatas where sl: "store_loop d now 0 chunks [] [] = (ids, metadatas)"
    by (cases "store_loop d now 0 chunks [] []")
  have ids: "ids = map (chunk_id d) [0 ..< length chunks]"
    using store_loop_ids [of d now chunks] sl by simp
  have lens: "length ids = length chunks" "length metadatas = length chunks"
    using store_loop_lengths [of d now chunks] sl by simp_all
  have ms: "metadatas ! i = \<lparr>meta_document_id = d, meta_chunk_text = chunks ! i,
                 meta_chunk_index = i, meta_timestamp = now\<rparr>" if "i < length chunks" for i
    using store_loop_nth(2) [OF that, of d now] sl by simp
  have recs: "map (\<lambda>i. \<lparr>rec_embedding = embeddings ! i, rec_document = chunks ! i,
                         rec_metadata = metadatas ! i\<rparr>) [0 ..< length ids]
             = map (\<lambda>i. \<lparr>rec_embedding = embeddings ! i, rec_document = chunks ! i,
                              rec_metadata = \<lparr>meta_document_id = d, meta_chunk_text = chunks ! i,
                                 meta_chunk_index = i, meta_timestamp = now\<rparr>\<rparr>)
                         [0 ..< length chunks]"
    using lens ms by (intro map_cong) simp_all
  have add: "collection_add ids embeddings chunks metadatas coll =
           Inr (fold (\<lambda>(k, v). AList.update k v)
                  (zip (map (chunk_id d) [0 ..< length chunks])
                    (map (\<lambda>i. \<lparr>rec_embedding = embeddings ! i, rec_document = chunks ! i,
                              rec_metadata = \<lparr>meta_document_id = d, meta_chunk_text = chunks ! i,
                                 meta_chunk_index = i, meta_timestamp = now\<rparr>\<rparr>)
                         [0 ..< length chunks])) coll)"
  proof -
    have "collection_add ids embeddings chunks metadatas coll =
           Inr (fold (\<lambda>(k, v). AList.update k v)
                  (zip ids (map (\<lambda>i. \<lparr>rec_embedding = embeddings ! i, rec_document = chunks ! i,
                                      rec_metadata = metadatas ! i\<rparr>) [0 ..< length ids])) coll)"
      by (rule collection_add_fold) (simp_all add: assms(2) lens)
    then show ?thesis unfolding recs unfolding ids .
  qed
  show ?thesis
    using assms(1)
    by (simp add: store_document_def sl add io_bind_def io_lift_def io_print_def io_return_def)
qed

subsection \<open>The claims about the storage layer\<close>

text \<open>
  C5. For every document id, clock reading and list of chunks, \<open>store_document\<close> builds one
  id and one metadata record for each chunk: at index \<open>i\<close> the id is the document id
  followed by \<open>_chunk_\<close> and the decimal index, and the metadata holds the document id, the
  text of chunk \<open>i\<close>, the index \<open>i\<close> and the one clock reading of the call, the same for
  all chunks. When the chunk list is not empty, these lists, the embeddings and the chunks
  are what is handed to the collection. The id determines the document id and the index:
  equal ids come from equal pairs.
\<close>

theorem store_builds_ids_and_metadata:
  "length (fst (store_loop document_id now 0 chunks [] [])) = length chunks
   \<and> length (snd (store_loop document_id now 0 chunks [] [])) = length chunks
   \<and> (\<forall>i<length chunks.
         fst (store_loop document_id now 0 chunks [] []) ! i
           = document_id @ ''_chunk_'' @ str_nat i
       \<and> snd (store_loop document_id now 0 chunks [] []) ! i
           = \<lparr>meta_document_id = document_id, meta_chunk_text = chunks ! i,
              meta_chunk_index = i, meta_timestamp = now\<rparr>)
   \<and> (chunks \<noteq> [] \<longrightarrow>
         fst (store_document now document_id chunks embeddings coll)
           = fst (io_lift (collection_add (fst (store_loop document_id now 0 chunks [] []))
                    embeddings chunks (snd (store_loop document_id now 0 chunks [] [])) coll)))
   \<and> (\<forall>d1 i1 d2 i2. d1 @ ''_chunk_'' @ str_nat i1 = d2 @ ''_chunk_'' @ str_nat i2
         \<longrightarrow> d1 = d2 \<and> i1 = i2)"
proof (intro conjI allI impI)
  show "length (fst (store_loop document_id now 0 chunks [] [])) = length chunks"
    by (rule store_loop_lengths)
  show "length (snd (store_loop document_id now 0 chunks [] [])) = length chunks"
    by (rule store_loop_lengths)
next
  fix i assume "i < length chunks"
  from store_loop_nth [OF this, of document_id now]
  show "fst (store_loop document_id now 0 chunks [] []) ! i = document_id @ ''_chunk_'' @ str_nat i"
    and "snd (store_loop document_id now 0 chunks [] []) ! i
           = \<lparr>meta_document_id = document_id, meta_chunk_text = chunks ! i,
              meta_chunk_index = i, meta_timestamp = now\<rparr>"
    by (simp_all add: chunk_id_def)
next
  assume "chunks \<noteq> []"
  then show "fst (store_document now document_id chunks embeddings coll)
           = fst (io_lift (collection_add (fst (store_loop document_id now 0 chunks [] []))
                    embeddings chunks (snd (store_loop document_id now 0 chunks [] [])) coll))"
    by (cases "collection_add (fst (store_loop document_id now 0 chunks [] []))
                    embeddings chunks (snd (store_loop document_id now 0 chunks [] [])) coll")
       (simp_all add: store_document_def case_prod_unfold Let_def io_bind_def io_lift_def
          io_print_def io_return_def)
next
  fix d1 i1 d2 i2
  assume "d1 @ ''_chunk_'' @ str_nat i1 = d2 @ ''_chunk_'' @ str_nat i2"
  then have "chunk_id d1 i1 = chunk_id d2 i2" by (simp add: chunk_id_def)
  from chunk_id_inj [OF this] show "d1 = d2" and "i1 = i2" by simp_all
qed

text \<open>A document of two chunks: the second id, the second metadata record, and the call.\<close>

theorem store_builds_ids_and_metadata_witness:
  "(1::nat) < length [''alpha'', ''beta'']
   \<and> fst (store_loop ''doc'' ''2024-01-01T00:00:00+00:00'' 0 [''alpha'', ''beta''] [] []) ! 1
        = ''doc_chunk_1''
   \<and> snd (store_loop ''doc'' ''2024-01-01T00:00:00+00:00'' 0 [''alpha'', ''beta''] [] []) ! 1
        = \<lparr>meta_document_id = ''doc'', meta_chunk_text = ''beta'',
           meta_chunk_index = 1, meta_timestamp = ''2024-01-01T00:00:00+00:00''\<rparr>
   \<and> [''alpha'', ''beta''] \<noteq> []
   \<and> fst (store_document ''2024-01-01T00:00:00+00:00'' ''doc'' [''alpha'', ''beta'']
             [[1, 0], [0, 1 :: int]] [])
        = Returns
            [(''doc_chunk_0'', \<lparr>rec_embedding = [1, 0], rec_document = ''alpha'',
                rec_metadata = \<lparr>meta_document_id = ''doc'', meta_chunk_text = ''alpha'',
                  meta_chunk_index = 0, meta_timestamp = ''2024-01-01T00:00:00+00:00''\<rparr>\<rparr>),
             (''doc_chunk_1'', \<lparr>rec_embedding = [0, 1], rec_document = ''beta'',
                rec_metadata = \<lparr>meta_document_id = ''doc'', meta_chunk_text = ''beta'',
                  meta_chunk_index = 1, meta_timestamp = ''2024-01-01T00:00:00+00:00''\<rparr>\<rparr>)]"
proof -
  note t = store_builds_ids_and_metadata [of "''doc''" "''2024-01-01T00:00:00+00:00''"
      "[''alpha'', ''beta'']" "[[1, 0], [0, 1 :: int]]" "[]"]
  from t have a: "\<forall>i<length [''alpha'', ''beta''].
         fst (store_loop ''doc'' ''2024-01-01T00:00:00+00:00'' 0 [''alpha'', ''beta''] [] []) ! i
           = ''doc'' @ ''_chunk_'' @ str_nat i
       \<and> snd (store_loop ''doc'' ''2024-01-01T00:00:00+00:00'' 0 [''alpha'', ''beta''] [] []) ! i
           = \<lparr>meta_document_id = ''doc'', meta_chunk_text = [''alpha'', ''beta''] ! i,
              meta_chunk_index = i, meta_timestamp = ''2024-01-01T00:00:00+00:00''\<rparr>"
    by blast
  have s1: "str_nat 1 = ''1''" by (simp add: str_nat.simps digit_char_def)
  from a [rule_format, of 1] s1 have b:
    "fst (store_loop ''doc'' ''2024-01-01T00:00:00+00:00'' 0 [''alpha'', ''beta''] [] []) ! 1
        = ''doc_chunk_1''"
    "snd (store_loop ''doc'' ''2024-01-01T00:00:00+00:00'' 0 [''alpha'', ''beta''] [] []) ! 1
        = \<lparr>meta_document_id = ''doc'', meta_chunk_text = ''beta'',
           meta_chunk_index = 1, meta_timestamp = ''2024-01-01T00:00:00+00:00''\<rparr>"
    by simp_all
  have c: "fst (store_document ''2024-01-01T00:00:00+00:00'' ''doc'' [''alpha'', ''beta'']
             [[1, 0], [0, 1 :: int]] [])
        = Returns
            [(''doc_chunk_0'', \<lparr>rec_embedding = [1, 0], rec_document = ''alpha'',
                rec_metadata = \<lparr>meta_document_id = ''doc'', meta_chunk_text = ''alpha'',
                  meta_chunk_index = 0, meta_timestamp = ''2024-01-01T00:00:00+00:00''\<rparr>\<rparr>),
             (''doc_chunk_1'', \<lparr>rec_embedding = [0, 1], rec_document = ''beta'',
                rec_metadata = \<lparr>meta_document_id = ''doc'', meta_chunk_text = ''beta'',
                  meta_chunk_index = 1, meta_timestamp = ''2024-01-01T00:00:00+00:00''\<rparr>\<rparr>)]"
    by (simp add: store_document_def collection_add_def chunk_id_def str_nat.simps digit_char_def
          Let_def io_bind_def io_lift_def io_print_def io_return_def)
  from b c show ?thesis by simp
qed

text \<open>
  C1. With a non-empty chunk list and as many embeddings, storing the same document id,
  chunks and embeddings twice (the two calls read the clock separately) returns both
  times, and the second call leaves the record count of the collection as the first left
  it: under each id of the call the second call's record replaces the first's, and no
  other id changes. The collection's \<open>add\<close> is the one modelled from the spec.
\<close>

theorem store_twice_keeps_count:
  assumes "chunks \<noteq> []" and "length embeddings = length chunks"
  shows "\<exists>c1 l1 c2 l2.
           store_document now1 document_id chunks embeddings coll = (Returns c1, l1)
         \<and> store_document now2 document_id chunks embeddings c1 = (Returns c2, l2)
         \<and> collection_count c2 = collection_count c1
         \<and> (\<forall>i<length chunks.
               map_of c2 (document_id @ ''_chunk_'' @ str_nat i)
                 = Some \<lparr>rec_embedding = embeddings ! i, rec_document = chunks ! i,
                     rec_metadata = \<lparr>meta_document_id = document_id, meta_chunk_text = chunks ! i,
                        meta_chunk_index = i, meta_timestamp = now2\<rparr>\<rparr>)
         \<and> (\<forall>k. k \<notin> set (map (\<lambda>i. document_id @ ''_chunk_'' @ str_nat i) [0 ..< length chunks])
               \<longrightarrow> map_of c2 k = map_of c1 k)"
proof -
  define ids where "ids = map (chunk_id document_id) [0 ..< length chunks]"
  define recs where "recs now = map (\<lambda>i. \<lparr>rec_embedding = embeddings ! i, rec_document = chunks ! i,
                              rec_metadata = \<lparr>meta_document_id = document_id, meta_chunk_text = chunks ! i,
                                 meta_chunk_index = i, meta_timestamp = now\<rparr>\<rparr>)
                         [0 ..< length chunks]" for now
  define c1 where "c1 = fold (\<lambda>(k, v). AList.update k v) (zip ids (recs now1)) coll"
  define c2 where "c2 = fold (\<lambda>(k, v). AList.update k v) (zip ids (recs now2)) c1"
  have len: "length ids = length chunks" "length (recs now) = length chunks" for now
    by (simp_all add: ids_def recs_def)
  have keys: "fst ` set (zip ids (recs now)) = set ids" for now
    using len(1) len(2) [of now] by (metis map_fst_zip set_map)
  have s1: "store_document now1 document_id chunks embeddings coll
              = (Returns c1, [VS_Stored (length chunks) document_id (collection_count c1)])"
    unfolding c1_def ids_def recs_def by (rule store_document_stores [OF assms])
  have s2: "store_document now2 document_id chunks embeddings c1
              = (Returns c2, [VS_Stored (length chunks) document_id (collection_count c2)])"
    unfolding c2_def ids_def recs_def by (rule store_document_stores [OF assms])
  have "fst ` set (zip ids (recs now2)) \<subseteq> fst ` set c1"
    unfolding c1_def fold_update_keys keys by blast
  then have cnt: "collection_count c2 = collection_count c1"
    unfolding c2_def collection_count_def by (rule fold_update_length_present)
  have dist: "distinct (map fst (zip ids (recs now2)))"
    using len(1) len(2) [of now2] distinct_chunk_ids [of document_id "length chunks"]
    by (simp add: ids_def)
  have look: "map_of c2 (document_id @ ''_chunk_'' @ str_nat i)
                 = Some \<lparr>rec_embedding = embeddings ! i, rec_document = chunks ! i,
                     rec_metadata = \<lparr>meta_document_id = document_id, meta_chunk_text = chunks ! i,
                        meta_chunk_index = i, meta_timestamp = now2\<rparr>\<rparr>"
    if "i < length chunks" for i
  proof -
    have "(ids ! i, recs now2 ! i) \<in> set (zip ids (recs now2))"
      using that len(1) len(2) [of now2] by (auto simp: in_set_zip)
    from fold_update_lookup [OF dist this, of c1]
    show ?thesis using that by (simp add: c2_def ids_def recs_def chunk_id_def)
  qed
  have other: "map_of c2 k = map_of c1 k"
    if "k \<notin> set (map (\<lambda>i. document_id @ ''_chunk_'' @ str_nat i) [0 ..< length chunks])" for k
  proof -
    have "set ids = set (map (\<lambda>i. document_id @ ''_chunk_'' @ str_nat i) [0 ..< length chunks])"
      by (simp add: ids_def chunk_id_def)
    with that have "k \<notin> fst ` set (zip ids (recs now2))" by (simp add: keys)
    then show ?thesis unfolding c2_def by (rule fold_update_other)
  qed
  from s1 s2 cnt look other show ?thesis by blast
qed

text \<open>Two chunks stored twice into an empty collection: two records after each call.\<close>

theorem store_twice_keeps_count_witness:
  "[''alpha'', ''beta''] \<noteq> [] \<and> length [[1, 0], [0, 1 :: int]] = length [''alpha'', ''beta'']
   \<and> (\<exists>c1 l1 c2 l2.
         store_document ''t1'' ''doc'' [''alpha'', ''beta''] [[1, 0], [0, 1 :: int]] [] = (Returns c1, l1)
       \<and> store_document ''t2'' ''doc'' [''alpha'', ''beta''] [[1, 0], [0, 1 :: int]] c1 = (Returns c2, l2)
       \<and> collection_count c1 = 2 \<and> collection_count c2 = 2)"
proof -
  from store_twice_keeps_count [of "[''alpha'', ''beta'']" "[[1, 0], [0, 1 :: int]]" "''t1''" "''doc''" "[]" "''t2''"]
  obtain c1 l1 c2 l2 where
    a: "store_document ''t1'' ''doc'' [''alpha'', ''beta''] [[1, 0], [0, 1 :: int]] [] = (Returns c1, l1)"
    and b: "store_document ''t2'' ''doc'' [''alpha'', ''beta''] [[1, 0], [0, 1 :: int]] c1 = (Returns c2, l2)"
    and c: "collection_count c2 = collection_count c1"
    by auto
  have "fst (store_document ''t1'' ''doc'' [''alpha'', ''beta''] [[1, 0], [0, 1 :: int]] [])
          = Returns
            [(''doc_chunk_0'', \<lparr>rec_embedding = [1, 0], rec_document = ''alpha'',
                rec_metadata = \<lparr>meta_document_id = ''doc'', meta_chunk_text = ''alpha'',
                  meta_chunk_index = 0, meta_timestamp = ''t1''\<rparr>\<rparr>),
             (''doc_chunk_1'', \<lparr>rec_embedding = [0, 1], rec_document = ''beta'',
                rec_metadata = \<lparr>meta_document_id = ''doc'', meta_chunk_text = ''beta'',
                  meta_chunk_index = 1, meta_timestamp = ''t1''\<rparr>\<rparr>)]"
    by (simp add: store_document_def collection_add_def chunk_id_def str_nat.simps digit_char_def
          Let_def io_bind_def io_lift_def io_print_def io_return_def)
  with a have "collection_count c1 = 2" by (simp add: collection_count_def)
  with a b c show ?thesis by auto
qed

section \<open>Properties of the extraction pipeline\<close>

subsection \<open>Sequencing of calls\<close>

lemma io_bind_return: "io_bind (io_return x) f = f x"
  by (simp add: io_bind_def io_return_def split: prod.splits)

lemma io_bind_print: "io_bind (io_print m) f = apsnd ((#) m) (f ())"
  by (simp add: io_bind_def io_print_def split: prod.splits)

lemma io_bind_lift_Inr: "io_bind (io_lift (Inr x)) f = f x"
  by (simp add: io_bind_def io_lift_def split: prod.splits)

lemma io_bind_lift_Inl: "io_bind (io_lift (Inl e)) f = (Raises e, [])"
  by (simp add: io_bind_def io_lift_def)

lemma io_bind_of_option_Some: "io_bind (io_of_option (Some x)) f = f x"
  by (simp add: io_bind_def io_of_option_def split: prod.splits)

lemma io_bind_Returns: "io_bind (Returns x, l) f = apsnd ((@) l) (f x)"
  by (simp add: io_bind_def split: prod.splits)

lemma io_bind_Raises: "io_bind (Raises e, l) f = (Raises e, l)"
  by (simp add: io_bind_def)

lemma io_bind_Diverges: "io_bind (Diverges, l) f = (Diverges, l)"
  by (simp add: io_bind_def)

lemmas io_simps = io_bind_return io_bind_print io_bind_lift_Inr io_bind_lift_Inl
  io_bind_of_option_Some io_bind_Returns io_bind_Raises io_bind_Diverges

subsection \<open>Normalised text\<close>


lemma set_takeWhile_dropWhile: "set s = set (takeWhile P s) \<union> set (dropWhile P s)"
  by (metis set_append takeWhile_dropWhile_id)

lemma ex_not_dropWhile: "(\<exists>x\<in>set (dropWhile P s). \<not> P x) \<longleftrightarrow> (\<exists>x\<in>set s. \<not> P x)"
proof
  assume "\<exists>x\<in>set (dropWhile P s). \<not> P x"
  then show "\<exists>x\<in>set s. \<not> P x" by (meson set_dropWhileD)
next
  assume "\<exists>x\<in>set s. \<not> P x"
  then obtain x where x: "x \<in> set s" "\<not> P x" by blast
  with set_takeWhile_dropWhile [of s P] have "x \<in> set (dropWhile P s)"
    by (auto dest: set_takeWhileD)
  with x show "\<exists>x\<in>set (dropWhile P s). \<not> P x" by blast
qed

lemma all_dropWhile: "(\<forall>x\<in>set (dropWhile P s). P x) \<longleftrightarrow> (\<forall>x\<in>set s. P x)"
  using ex_not_dropWhile [of P s] by blast

lemma strip_eq_Nil_iff: "strip s = [] \<longleftrightarrow> (\<forall>c\<in>set s. isspace c)"
proof -
  have "strip s = [] \<longleftrightarrow> dropWhile isspace (rev (dropWhile isspace s)) = []"
    by (simp add: strip_def)
  also have "\<dots> \<longleftrightarrow> (\<forall>c\<in>set (rev (dropWhile isspace s)). isspace c)"
    by (rule dropWhile_eq_Nil_conv)
  also have "\<dots> \<longleftrightarrow> (\<forall>c\<in>set (dropWhile isspace s). isspace c)" by simp
  also have "\<dots> \<longleftrightarrow> (\<forall>c\<in>set s. isspace c)" by (rule all_dropWhile)
  finally show ?thesis .
qed

lemma hd_strip: "strip s \<noteq> [] \<Longrightarrow> \<not> isspace (hd (strip s))"
proof -
  assume ne: "strip s \<noteq> []"
  let ?d = "dropWhile isspace s"
  have d: "?d \<noteq> []"
  proof
    assume "?d = []"
    then have "strip s = []" unfolding strip_def by (simp only: rev.simps dropWhile.simps)
    with ne show False by simp
  qed
  then have h: "\<not> isspace (hd ?d)" by (rule hd_dropWhile)
  have "rev ?d = takeWhile isspace (rev ?d) @ dropWhile isspace (rev ?d)" by simp
  then have "?d = strip s @ rev (takeWhile isspace (rev ?d))"
    unfolding strip_def by (metis rev_append rev_rev_ident)
  with ne have "hd ?d = hd (strip s)" by (metis hd_append2)
  with h show ?thesis by simp
qed



lemma hd_normalise: "normalise s \<noteq> [] \<Longrightarrow> \<not> isspace (hd (normalise s))"
  unfolding normalise_def by (rule hd_strip)


subsection \<open>A text that starts with a character gives a chunk\<close>

lemma window_starts_first: "0 < n \<Longrightarrow> 0 < step \<Longrightarrow> window_starts n step 0 = 0 # window_starts n step step"
  by (subst window_starts.simps) simp

lemma chunks_of_clean_text:
  assumes "clean \<noteq> []" and "\<not> isspace (hd clean)"
  shows "\<exists>chunks. split_into_chunks clean CHUNK_SIZE CHUNK_OVERLAP = Some chunks \<and> chunks \<noteq> []"
proof -
  have w: "window clean 500 0 \<noteq> []" "hd (window clean 500 0) = hd clean"
    using assms(1) by (simp_all add: window_def)
  then have "\<exists>c\<in>set (window clean 500 0). \<not> isspace c"
    using assms(2) by (metis hd_in_set)
  then have "strip (window clean 500 0) \<noteq> []" by (simp add: strip_eq_Nil_iff)
  moreover have "window_starts (length clean) 450 0 = 0 # window_starts (length clean) 450 450"
    using assms(1) by (simp add: window_starts_first)
  ultimately show ?thesis
    using split_into_chunks_walk [of 50 500 clean]
    by (simp add: CHUNK_SIZE_def CHUNK_OVERLAP_def)
qed

lemma pdf_chunks_of_clean_text:
  assumes "clean \<noteq> []" and "\<not> isspace (hd clean)"
  shows "\<exists>chunks. pdf_split_into_chunks clean PDF_CHUNK_SIZE PDF_CHUNK_OVERLAP = Some chunks
           \<and> chunks \<noteq> []"
  using chunks_of_clean_text [OF assms]
  by (simp add: pdf_split_into_chunks_eq PDF_CHUNK_SIZE_def PDF_CHUNK_OVERLAP_def
        CHUNK_SIZE_def CHUNK_OVERLAP_def)

subsection \<open>process_document\<close>

lemma supported_join: "join '', '' (sorted_list_of_set SUPPORTED_EXTENSIONS) = ''.docx, .pdf, .pptx''"
  by code_simp

lemma process_document_unsupported:
  "lower file_ext \<notin> SUPPORTED_EXTENSIONS \<Longrightarrow>
   process_document libs file_path file_ext
     = (Raises (ValueError (unsupported_message (lower file_ext))), [])"
  by (simp add: process_document_def Let_def io_raise_def)

lemma process_document_supported:
  "lower file_ext \<in> SUPPORTED_EXTENSIONS \<Longrightarrow>
   \<exists>r l. process_document libs file_path file_ext
     = (r, DP_Extracting file_path (lower file_ext) # l)"
proof -
  have unf: "apsnd f p = (fst p, f (snd p))" for f :: "log_msg list \<Rightarrow> log_msg list" and p :: "string list io"
    by (cases p) simp
  assume "lower file_ext \<in> SUPPORTED_EXTENSIONS"
  then show ?thesis
    by (simp add: process_document_def Let_def io_bind_print unf)
qed


subsection \<open>The stages of process_pdf\<close>




text \<open>Stage 2 returns a normalised text or raises; it has no loop that may run forever.\<close>

lemma ocr_loop_returns_or_raises: "fst (ocr_loop pages i texts) \<noteq> Diverges"
proof (induction pages arbitrary: i texts)
  case Nil
  then show ?case by (simp add: io_return_def)
next
  case (Cons page_img rest)
  show ?case
  proof (cases page_img)
    case (Inl e)
    then show ?thesis by (simp add: io_simps)
  next
    case (Inr raw)
    then show ?thesis using Cons.IH by (simp add: io_simps Let_def)
  qed
qed

lemma extract_text_ocr_outcome:
  "fst (extract_text_ocr libs file_path) \<noteq> Diverges"
  "fst (extract_text_ocr libs file_path) = Returns t \<Longrightarrow> \<exists>x. t = normalise x"
proof -
  have "fst (extract_text_ocr libs file_path) \<noteq> Diverges
        \<and> (fst (extract_text_ocr libs file_path) = Returns t \<longrightarrow> (\<exists>x. t = normalise x))"
  proof (cases "import_pdf2image libs")
    case (Inl e)
    then show ?thesis by (simp add: extract_text_ocr_def io_simps)
  next
    case (Inr convert_from_path)
    note imp = this
    show ?thesis
    proof (cases "convert_from_path file_path")
      case (Inl e)
      with imp show ?thesis by (simp add: extract_text_ocr_def io_simps)
    next
      case (Inr pages)
      obtain r l where o: "ocr_loop pages 0 [] = (r, l)" by (cases "ocr_loop pages 0 []")
      with ocr_loop_returns_or_raises [of pages 0 "[]"] have "r \<noteq> Diverges" by simp
      with imp Inr o show ?thesis
        by (cases r) (auto simp: extract_text_ocr_def io_simps io_return_def)
    qed
  qed
  then show "fst (extract_text_ocr libs file_path) \<noteq> Diverges"
    and "fst (extract_text_ocr libs file_path) = Returns t \<Longrightarrow> \<exists>x. t = normalise x"
    by simp_all
qed

text \<open>An unavailable \<open>pdf2image\<close> reaches \<open>process_pdf\<close> as a \<open>RuntimeError\<close>.\<close>

lemma extract_text_ocr_import_error:
  "pdf2image_import libs = Inl e \<Longrightarrow> is_ImportError e \<Longrightarrow>
   extract_text_ocr libs file_path
     = (Raises (RuntimeError ''pdf2image is not installed. Run: pip install pdf2image''), [])"
  by (simp add: extract_text_ocr_def import_pdf2image_def io_simps)

text \<open>
  Stage 3: the loop over the images of one page returns whatever the images do, and
  prints a line for every image that raised.
\<close>

lemma images_loop_returns:
  "\<exists>image_texts' l. images_loop page_num images image_texts total_images
       = (Returns (image_texts', total_images + length images), l)
     \<and> (\<forall>img\<in>set images. \<forall>e. image_ocr img = Inl e \<longrightarrow> Img_Skipping (page_num + 1) e \<in> set l)"
proof (induction images arbitrary: image_texts total_images)
  case Nil
  then show ?case by (simp add: io_return_def)
next
  case (Cons img_obj rest)
  let ?one = "try_except
          (io_bind (io_lift (image_ocr img_obj)) (\<lambda>raw.
           (let text = strip raw
            in if text \<noteq> []
               then io_bind (io_print (Img_Found (page_num + 1) (image_name img_obj) (length text)))
                      (\<lambda>_. io_return (image_texts @ [text]))
               else io_return image_texts)))
          is_Exception
          (\<lambda>exc. io_bind (io_print (Img_Skipping (page_num + 1) exc)) (\<lambda>_.
                  io_return image_texts))"
  have one: "\<exists>texts1 l1. ?one = (Returns texts1, l1)
      \<and> (\<forall>e. image_ocr img_obj = Inl e \<longrightarrow> Img_Skipping (page_num + 1) e \<in> set l1)"
  proof (cases "image_ocr img_obj")
    case (Inl e)
    then show ?thesis
      by (simp add: try_except_def io_simps io_return_def is_Exception_def)
  next
    case (Inr raw)
    then show ?thesis
      by (simp add: try_except_def io_simps io_return_def Let_def)
  qed
  then obtain texts1 l1 where o: "?one = (Returns texts1, l1)"
    and lg1: "\<forall>e. image_ocr img_obj = Inl e \<longrightarrow> Img_Skipping (page_num + 1) e \<in> set l1"
    by blast
  from Cons.IH [of texts1 "total_images + 1"]
  obtain texts2 l2 where r: "images_loop page_num rest texts1 (total_images + 1)
       = (Returns (texts2, total_images + 1 + length rest), l2)"
    and lg2: "\<forall>img\<in>set rest. \<forall>e. image_ocr img = Inl e \<longrightarrow> Img_Skipping (page_num + 1) e \<in> set l2"
    by blast
  have "images_loop page_num (img_obj # rest) image_texts total_images
          = (Returns (texts2, total_images + length (img_obj # rest)), l1 @ l2)"
    by (simp only: images_loop.simps o io_bind_Returns r) simp
  moreover have "\<forall>img\<in>set (img_obj # rest). \<forall>e. image_ocr img = Inl e
        \<longrightarrow> Img_Skipping (page_num + 1) e \<in> set (l1 @ l2)"
    using lg1 lg2 by auto
  ultimately show ?case by blast
qed

text \<open>
  The loop over the pages: it returns, or raises what the iteration over the images of
  some page raised. When no iteration raises it returns, and every image that raised has
  its line, with the number of its page.
\<close>

lemma pages_images_loop_outcome:
  "\<exists>r l. pages_images_loop pages page_num image_texts total_images = (r, l)
     \<and> r \<noteq> Diverges
     \<and> (\<forall>e. r = Raises e \<longrightarrow>
           (\<exists>p\<in>set pages. \<exists>il. page_images p = Inr il \<and> image_iter_error il = Some e))
     \<and> ((\<forall>p\<in>set pages. \<forall>il. page_images p = Inr il \<longrightarrow> image_iter_error il = None) \<longrightarrow>
           (\<exists>v. r = Returns v)
         \<and> (\<forall>i<length pages. \<forall>il. page_images (pages ! i) = Inr il \<longrightarrow>
               (\<forall>img\<in>set (image_items il). \<forall>e. image_ocr img = Inl e \<longrightarrow>
                  Img_Skipping (page_num + i + 1) e \<in> set l)))"
proof (induction pages arbitrary: page_num image_texts total_images)
  case Nil
  then show ?case by (simp add: io_return_def)
next
  case (Cons page rest)
  show ?case
  proof (cases "page_images page")
    case (Inl e)
    from Cons.IH [of "page_num + 1" image_texts total_images]
    obtain r l where rest: "pages_images_loop rest (page_num + 1) image_texts total_images = (r, l)"
      and nd: "r \<noteq> Diverges"
      and rs: "\<forall>e. r = Raises e \<longrightarrow>
           (\<exists>p\<in>set rest. \<exists>il. page_images p = Inr il \<and> image_iter_error il = Some e)"
      and ok: "(\<forall>p\<in>set rest. \<forall>il. page_images p = Inr il \<longrightarrow> image_iter_error il = None) \<longrightarrow>
           (\<exists>v. r = Returns v)
         \<and> (\<forall>i<length rest. \<forall>il. page_images (rest ! i) = Inr il \<longrightarrow>
               (\<forall>img\<in>set (image_items il). \<forall>e. image_ocr img = Inl e \<longrightarrow>
                  Img_Skipping (page_num + 1 + i + 1) e \<in> set l))"
      by blast
    have eq: "pages_images_loop (page # rest) page_num image_texts total_images = (r, l)"
      using Inl rest by simp
    have logs: "\<forall>i<length (page # rest). \<forall>il. page_images ((page # rest) ! i) = Inr il \<longrightarrow>
               (\<forall>img\<in>set (image_items il). \<forall>e. image_ocr img = Inl e \<longrightarrow>
                  Img_Skipping (page_num + i + 1) e \<in> set l)"
      if "\<forall>p\<in>set (page # rest). \<forall>il. page_images p = Inr il \<longrightarrow> image_iter_error il = None"
    proof (intro allI impI)
      fix i il assume i: "i < length (page # rest)" and p: "page_images ((page # rest) ! i) = Inr il"
      show "\<forall>img\<in>set (image_items il). \<forall>e. image_ocr img = Inl e \<longrightarrow>
                  Img_Skipping (page_num + i + 1) e \<in> set l"
      proof (cases i)
        case 0
        with p Inl show ?thesis by simp
      next
        case (Suc j)
        with i p have "j < length rest" "page_images (rest ! j) = Inr il" by simp_all
        with ok that Suc show ?thesis by simp
      qed
    qed
    show ?thesis
      unfolding eq using nd rs ok logs by (intro exI [of _ r] exI [of _ l]) auto
  next
    case (Inr images)
    from images_loop_returns [of page_num "image_items images" image_texts total_images]
    obtain texts1 l1 where il: "images_loop page_num (image_items images) image_texts total_images
         = (Returns (texts1, total_images + length (image_items images)), l1)"
      and lg1: "\<forall>img\<in>set (image_items images). \<forall>e. image_ocr img = Inl e
                  \<longrightarrow> Img_Skipping (page_num + 1) e \<in> set l1"
      by blast
    show ?thesis
    proof (cases "image_iter_error images")
      case (Some e)
      have eq: "pages_images_loop (page # rest) page_num image_texts total_images = (Raises e, l1)"
        using Inr Some il by (simp add: io_simps io_raise_def io_bind_def)
      have "\<exists>p\<in>set (page # rest). \<exists>il. page_images p = Inr il \<and> image_iter_error il = Some e"
        using Inr Some by auto
      moreover have "\<not> (\<forall>p\<in>set (page # rest). \<forall>il. page_images p = Inr il
                          \<longrightarrow> image_iter_error il = None)"
        using Inr Some by auto
      ultimately show ?thesis unfolding eq by blast
    next
      case None
      from Cons.IH [of "page_num + 1" texts1 "total_images + length (image_items images)"]
      obtain r l where rest: "pages_images_loop rest (page_num + 1) texts1
              (total_images + length (image_items images)) = (r, l)"
        and nd: "r \<noteq> Diverges"
        and rs: "\<forall>e. r = Raises e \<longrightarrow>
             (\<exists>p\<in>set rest. \<exists>il. page_images p = Inr il \<and> image_iter_error il = Some e)"
        and ok: "(\<forall>p\<in>set rest. \<forall>il. page_images p = Inr il \<longrightarrow> image_iter_error il = None) \<longrightarrow>
             (\<exists>v. r = Returns v)
           \<and> (\<forall>i<length rest. \<forall>il. page_images (rest ! i) = Inr il \<longrightarrow>
                 (\<forall>img\<in>set (image_items il). \<forall>e. image_ocr img = Inl e \<longrightarrow>
                    Img_Skipping (page_num + 1 + i + 1) e \<in> set l))"
        by blast
      have eq: "pages_images_loop (page # rest) page_num image_texts total_images = (r, l1 @ l)"
        using Inr None il rest by (simp add: io_simps io_return_def)
      have logs: "\<forall>i<length (page # rest). \<forall>il. page_images ((page # rest) ! i) = Inr il \<longrightarrow>
                 (\<forall>img\<in>set (image_items il). \<forall>e. image_ocr img = Inl e \<longrightarrow>
                    Img_Skipping (page_num + i + 1) e \<in> set (l1 @ l))"
        if "\<forall>p\<in>set (page # rest). \<forall>il. page_images p = Inr il \<longrightarrow> image_iter_error il = None"
      proof (intro allI impI)
        fix i il assume i: "i < length (page # rest)" and p: "page_images ((page # rest) ! i) = Inr il"
        show "\<forall>img\<in>set (image_items il). \<forall>e. image_ocr img = Inl e \<longrightarrow>
                    Img_Skipping (page_num + i + 1) e \<in> set (l1 @ l)"
        proof (cases i)
          case 0
          with p Inr lg1 show ?thesis by simp
        next
          case (Suc j)
          with i p have "j < length rest" "page_images (rest ! j) = Inr il" by simp_all
          with ok that Suc show ?thesis by simp
        qed
      qed
      show ?thesis
        unfolding eq using nd rs ok logs by (intro exI [of _ r] exI [of _ "l1 @ l"]) auto
    qed
  qed
qed

lemma extract_images_text_outcome:
  "\<exists>r l. extract_images_text reader = (r, l)
     \<and> r \<noteq> Diverges
     \<and> (\<forall>t. r = Returns t \<longrightarrow> (\<exists>x. t = normalise x))
     \<and> (\<forall>e. r = Raises e \<longrightarrow>
           (\<exists>p\<in>set (reader_pages reader). \<exists>il. page_images p = Inr il \<and> image_iter_error il = Some e))
     \<and> ((\<forall>p\<in>set (reader_pages reader). \<forall>il. page_images p = Inr il \<longrightarrow> image_iter_error il = None) \<longrightarrow>
           (\<exists>t. r = Returns t)
         \<and> (\<forall>i<length (reader_pages reader). \<forall>il. page_images (reader_pages reader ! i) = Inr il \<longrightarrow>
               (\<forall>img\<in>set (image_items il). \<forall>e. image_ocr img = Inl e \<longrightarrow>
                  Img_Skipping (i + 1) e \<in> set l)))"
proof -
  from pages_images_loop_outcome [of "reader_pages reader" 0 "[]" 0]
  obtain r l where eq: "pages_images_loop (reader_pages reader) 0 [] 0 = (r, l)"
    and nd: "r \<noteq> Diverges"
    and rs: "\<forall>e. r = Raises e \<longrightarrow>
           (\<exists>p\<in>set (reader_pages reader). \<exists>il. page_images p = Inr il \<and> image_iter_error il = Some e)"
    and ok: "(\<forall>p\<in>set (reader_pages reader). \<forall>il. page_images p = Inr il \<longrightarrow> image_iter_error il = None) \<longrightarrow>
           (\<exists>v. r = Returns v)
         \<and> (\<forall>i<length (reader_pages reader). \<forall>il. page_images (reader_pages reader ! i) = Inr il \<longrightarrow>
               (\<forall>img\<in>set (image_items il). \<forall>e. image_ocr img = Inl e \<longrightarrow>
                  Img_Skipping (0 + i + 1) e \<in> set l))"
    by blast
  show ?thesis
  proof (cases r)
    case (Returns v)
    obtain image_texts total_images where v: "v = (image_texts, total_images)" by (cases v)
    have "extract_images_text reader
            = (Returns (normalise (join NL image_texts)),
               l @ (if total_images \<noteq> 0 then [Img_Processed total_images (length image_texts)] else []))"
      using eq Returns v
      by (simp add: extract_images_text_def io_simps io_return_def io_print_def)
    with ok Returns show ?thesis by auto
  next
    case (Raises e)
    with eq have "extract_images_text reader = (Raises e, l)"
      by (simp add: extract_images_text_def io_simps)
    with rs ok Raises show ?thesis by auto
  next
    case Diverges
    with nd show ?thesis by simp
  qed
qed

text \<open>
  Stage 3, image by image: the texts collected are those of the images that could be read,
  in order.
\<close>

lemma images_loop_texts:
  "fst (images_loop page_num images image_texts total_images)
     = Returns (image_texts @ concat (map image_text images), total_images + length images)"
proof (induction images arbitrary: image_texts total_images)
  case Nil
  then show ?case by (simp add: io_return_def)
next
  case (Cons img_obj rest)
  have one: "\<exists>l1. try_except
          (io_bind (io_lift (image_ocr img_obj)) (\<lambda>raw.
           (let text = strip raw
            in if text \<noteq> []
               then io_bind (io_print (Img_Found (page_num + 1) (image_name img_obj) (length text)))
                      (\<lambda>_. io_return (image_texts @ [text]))
               else io_return image_texts)))
          is_Exception
          (\<lambda>exc. io_bind (io_print (Img_Skipping (page_num + 1) exc)) (\<lambda>_.
                  io_return image_texts))
        = (Returns (image_texts @ image_text img_obj), l1)"
  proof (cases "image_ocr img_obj")
    case (Inl e)
    then show ?thesis
      by (simp add: try_except_def io_simps io_return_def is_Exception_def image_text_def)
  next
    case (Inr raw)
    then show ?thesis
      by (simp add: try_except_def io_simps io_return_def Let_def image_text_def)
  qed
  then obtain l1 where o: "try_except
          (io_bind (io_lift (image_ocr img_obj)) (\<lambda>raw.
           (let text = strip raw
            in if text \<noteq> []
               then io_bind (io_print (Img_Found (page_num + 1) (image_name img_obj) (length text)))
                      (\<lambda>_. io_return (image_texts @ [text]))
               else io_return image_texts)))
          is_Exception
          (\<lambda>exc. io_bind (io_print (Img_Skipping (page_num + 1) exc)) (\<lambda>_.
                  io_return image_texts))
        = (Returns (image_texts @ image_text img_obj), l1)" by blast
  have "fst (images_loop page_num (img_obj # rest) image_texts total_images)
          = fst (images_loop page_num rest (image_texts @ image_text img_obj) (total_images + 1))"
    by (simp only: images_loop.simps o io_bind_Returns) simp
  then show ?case by (simp add: Cons.IH)
qed

text \<open>
  Stage 3, page by page, when no iteration over a page's images raises: the texts
  collected are those of all pages, in order; a page whose image list cannot be requested
  is passed over.
\<close>

lemma pages_images_loop_texts:
  assumes "\<forall>p\<in>set pages. \<forall>il. page_images p = Inr il \<longrightarrow> image_iter_error il = None"
  shows "\<exists>total. fst (pages_images_loop pages page_num image_texts total_images)
           = Returns (image_texts @ concat (map page_image_texts pages), total)"
  using assms
proof (induction pages arbitrary: page_num image_texts total_images)
  case Nil
  then show ?case by (simp add: io_return_def)
next
  case (Cons page rest)
  from Cons.prems have rest: "\<forall>p\<in>set rest. \<forall>il. page_images p = Inr il \<longrightarrow> image_iter_error il = None"
    by simp
  show ?case
  proof (cases "page_images page")
    case (Inl e)
    then have pit: "page_image_texts page = []" by (simp add: page_image_texts_def)
    from Inl Cons.IH [OF rest, of "page_num + 1" image_texts total_images]
    show ?thesis by (simp add: pit)
  next
    case (Inr images)
    with Cons.prems have none: "image_iter_error images = None" by simp
    obtain l1 where il: "images_loop page_num (image_items images) image_texts total_images
         = (Returns (image_texts @ concat (map image_text (image_items images)),
                     total_images + length (image_items images)), l1)"
      using images_loop_texts [of page_num "image_items images" image_texts total_images]
      by (cases "images_loop page_num (image_items images) image_texts total_images") simp
    from Cons.IH [OF rest, of "page_num + 1"
        "image_texts @ concat (map image_text (image_items images))"
        "total_images + length (image_items images)"]
    obtain total where r: "fst (pages_images_loop rest (page_num + 1)
          (image_texts @ concat (map image_text (image_items images)))
          (total_images + length (image_items images)))
        = Returns ((image_texts @ concat (map image_text (image_items images)))
                     @ concat (map page_image_texts rest), total)"
      by blast
    have "fst (pages_images_loop (page # rest) page_num image_texts total_images)
            = fst (pages_images_loop rest (page_num + 1)
                (image_texts @ concat (map image_text (image_items images)))
                (total_images + length (image_items images)))"
      using Inr none il by (simp add: io_simps io_return_def)
    moreover have "page_image_texts page = concat (map image_text (image_items images))"
      using Inr by (simp add: page_image_texts_def)
    ultimately show ?thesis using r by simp
  qed
qed

text \<open>
  Stage 3, page by page: an image that raised has its line printed if the loop reaches its
  page, that is, if no iteration over the images of an earlier page raised.
\<close>

lemma pages_images_loop_logs:
  assumes "i < length pages"
    and "\<forall>j<i. \<forall>il. page_images (pages ! j) = Inr il \<longrightarrow> image_iter_error il = None"
    and "page_images (pages ! i) = Inr il"
    and "img \<in> set (image_items il)"
    and "image_ocr img = Inl e"
  shows "Img_Skipping (page_num + i + 1) e
           \<in> set (snd (pages_images_loop pages page_num image_texts total_images))"
  using assms
proof (induction pages arbitrary: i page_num image_texts total_images)
  case Nil
  then show ?case by simp
next
  case (Cons page rest)
  show ?case
  proof (cases i)
    case 0
    with Cons.prems(3) have pg: "page_images page = Inr il" by simp
    from images_loop_returns [of page_num "image_items il" image_texts total_images]
    obtain texts1 l1 where il: "images_loop page_num (image_items il) image_texts total_images
         = (Returns (texts1, total_images + length (image_items il)), l1)"
      and lg1: "\<forall>img\<in>set (image_items il). \<forall>e. image_ocr img = Inl e
                  \<longrightarrow> Img_Skipping (page_num + 1) e \<in> set l1"
      by blast
    from lg1 Cons.prems(4,5) have m: "Img_Skipping (page_num + 1) e \<in> set l1" by blast
    have "\<exists>l. snd (pages_images_loop (page # rest) page_num image_texts total_images) = l1 @ l"
    proof (cases "image_iter_error il")
      case None
      with pg il show ?thesis
        by (cases "pages_images_loop rest (page_num + 1) texts1
                     (total_images + length (image_items il))")
           (simp add: io_simps io_return_def)
    next
      case (Some e')
      with pg il show ?thesis by (simp add: io_simps io_raise_def io_bind_def)
    qed
    with m 0 show ?thesis by auto
  next
    case (Suc j)
    from Cons.prems Suc have j: "j < length rest"
      and pj: "page_images (rest ! j) = Inr il"
      and before: "\<forall>k<j. \<forall>il. page_images (rest ! k) = Inr il \<longrightarrow> image_iter_error il = None"
      and first: "\<forall>il. page_images page = Inr il \<longrightarrow> image_iter_error il = None"
      by auto
    show ?thesis
    proof (cases "page_images page")
      case (Inl e')
      from Cons.IH [OF j before pj Cons.prems(4,5), of "page_num + 1" image_texts total_images]
      show ?thesis using Inl Suc by simp
    next
      case (Inr images)
      with first have none: "image_iter_error images = None" by simp
      from images_loop_returns [of page_num "image_items images" image_texts total_images]
      obtain texts1 l1 where il: "images_loop page_num (image_items images) image_texts total_images
           = (Returns (texts1, total_images + length (image_items images)), l1)"
        by blast
      from Cons.IH [OF j before pj Cons.prems(4,5), of "page_num + 1" texts1
          "total_images + length (image_items images)"]
      have m: "Img_Skipping (page_num + 1 + j + 1) e
           \<in> set (snd (pages_images_loop rest (page_num + 1) texts1
                         (total_images + length (image_items images))))" .
      have "snd (pages_images_loop (page # rest) page_num image_texts total_images)
              = l1 @ snd (pages_images_loop rest (page_num + 1) texts1
                         (total_images + length (image_items images)))"
        using Inr none il
        by (cases "pages_images_loop rest (page_num + 1) texts1
                     (total_images + length (image_items images))")
           (simp add: io_simps io_return_def)
      with m Suc show ?thesis by simp
    qed
  qed
qed

lemma extract_images_text_texts:
  assumes "\<forall>p\<in>set (reader_pages reader). \<forall>il. page_images p = Inr il \<longrightarrow> image_iter_error il = None"
  shows "fst (extract_images_text reader)
           = Returns (normalise (join NL (concat (map page_image_texts (reader_pages reader)))))"
proof -
  from pages_images_loop_texts [OF assms, of 0 "[]" 0]
  obtain total l where "pages_images_loop (reader_pages reader) 0 [] 0
      = (Returns (concat (map page_image_texts (reader_pages reader)), total), l)"
    by (cases "pages_images_loop (reader_pages reader) 0 [] 0") auto
  then show ?thesis
    by (simp add: extract_images_text_def io_simps io_return_def io_print_def)
qed

lemma extract_images_text_logs:
  "set (snd (pages_images_loop (reader_pages reader) 0 [] 0))
     \<subseteq> set (snd (extract_images_text reader))"
proof -
  obtain r l where eq: "pages_images_loop (reader_pages reader) 0 [] 0 = (r, l)"
    by (cases "pages_images_loop (reader_pages reader) 0 [] 0")
  show ?thesis
  proof (cases r)
    case (Returns v)
    obtain image_texts total_images where v: "v = (image_texts, total_images)" by (cases v)
    from eq Returns v show ?thesis
      by (simp add: extract_images_text_def io_simps io_return_def io_print_def)
  next
    case (Raises e)
    with eq show ?thesis by (simp add: extract_images_text_def io_simps)
  next
    case Diverges
    with eq show ?thesis by (simp add: extract_images_text_def io_simps)
  qed
qed

text \<open>
  A stage of \<open>process_pdf\<close> inside its \<open>try\<close>: when the stage returns, its text is appended
  if it is not empty; when it raises a \<open>RuntimeError\<close>, the handler prints and the parts
  stay as they were.
\<close>

lemma stage_recovered:
  assumes "fst m \<noteq> Diverges" and "\<forall>e. fst m = Raises e \<longrightarrow> is_RuntimeError e"
  shows "try_except
           (io_bind m (\<lambda>t. if t \<noteq> []
                            then io_bind (io_print (X (length t))) (\<lambda>_. io_return (parts @ [t]))
                            else io_bind (io_print N) (\<lambda>_. io_return parts)))
           is_RuntimeError
           (\<lambda>e. io_bind (io_print (Sk e)) (\<lambda>_. io_return parts))
         = (Returns (parts @ filter (\<lambda>t. t \<noteq> []) [contribution (fst m)]),
            snd m @ [case fst m of
                       Returns t \<Rightarrow> (if t \<noteq> [] then X (length t) else N)
                     | Raises e \<Rightarrow> Sk e
                     | Diverges \<Rightarrow> N])"
proof -
  obtain r l where m: "m = (r, l)" by (cases m)
  show ?thesis
  proof (cases r)
    case (Returns t)
    then show ?thesis
      by (simp add: m try_except_def io_simps io_return_def contribution_def)
  next
    case (Raises e)
    with assms(2) m have "is_RuntimeError e" by simp
    with Raises show ?thesis
      by (simp add: m try_except_def io_simps io_return_def contribution_def)
  next
    case Diverges
    with assms(1) m show ?thesis by simp
  qed
qed

text \<open>A stage whose exception is not a \<open>RuntimeError\<close> ends \<open>process_pdf\<close>.\<close>

lemma stage_propagates:
  assumes "fst m = Raises e" and "\<not> is_RuntimeError e"
  shows "try_except (io_bind m f) is_RuntimeError h = (Raises e, snd m)"
  using assms by (cases m) (simp add: try_except_def io_simps)

lemma process_pdf_outcome:
  assumes rd: "pypdf_PdfReader libs file_path = Inr reader"
    and nt: "extract_text_native reader = Inr native_text"
    and r2: "\<forall>e. fst (extract_text_ocr libs file_path) = Raises e \<longrightarrow> is_RuntimeError e"
    and r3: "\<forall>e. fst (extract_images_text reader) = Raises e \<longrightarrow> is_RuntimeError e"
  shows "\<exists>chunks l2 l3 l4.
           process_pdf libs file_path
             = (Returns chunks,
                [S1_Start file_path,
                 if native_text \<noteq> [] then S1_Extracted (length native_text) else S1_NoTextLayer,
                 S2_Start]
                @ snd (extract_text_ocr libs file_path) @ [l2]
                @ [S3_Start] @ snd (extract_images_text reader) @ [l3] @ [l4])
         \<and> (\<forall>e. fst (extract_text_ocr libs file_path) = Raises e \<longrightarrow> l2 = S2_Skipped e)
         \<and> (\<forall>e. fst (extract_images_text reader) = Raises e \<longrightarrow> l3 = S3_Skipped e)
         \<and> (if normalise (join '' '' (filter (\<lambda>t. t \<noteq> [])
                  [native_text, contribution (fst (extract_text_ocr libs file_path)),
                   contribution (fst (extract_images_text reader))])) = []
             then chunks = []
             else pdf_split_into_chunks
                    (normalise (join '' '' (filter (\<lambda>t. t \<noteq> [])
                      [native_text, contribution (fst (extract_text_ocr libs file_path)),
                       contribution (fst (extract_images_text reader))])))
                    PDF_CHUNK_SIZE PDF_CHUNK_OVERLAP = Some chunks
                  \<and> chunks \<noteq> [])"
proof -
  let ?ocr = "extract_text_ocr libs file_path"
  let ?img = "extract_images_text reader"
  let ?combined = "normalise (join '' '' (filter (\<lambda>t. t \<noteq> [])
                  [native_text, contribution (fst ?ocr), contribution (fst ?img)]))"
  have nd2: "fst ?ocr \<noteq> Diverges" by (rule extract_text_ocr_outcome)
  have nd3: "fst ?img \<noteq> Diverges" using extract_images_text_outcome [of reader] by auto
  note s2 = stage_recovered [OF nd2 r2, where X = S2_Extracted and N = S2_NoText
      and Sk = S2_Skipped]
  note s3 = stage_recovered [OF nd3 r3, where X = S3_Extracted and N = S3_NoText
      and Sk = S3_Skipped]
  have parts: "(if native_text \<noteq> [] then [native_text] else [])
                  @ filter (\<lambda>t. t \<noteq> []) [contribution (fst ?ocr)]
                  @ filter (\<lambda>t. t \<noteq> []) [contribution (fst ?img)]
               = filter (\<lambda>t. t \<noteq> []) [native_text, contribution (fst ?ocr), contribution (fst ?img)]"
    by simp
  have first: "io_bind (if native_text \<noteq> []
              then io_bind (io_print (S1_Extracted (length native_text))) (\<lambda>_.
                   io_return [native_text])
              else io_bind (io_print S1_NoTextLayer) (\<lambda>_. io_return [])) f
        = apsnd ((#) (if native_text \<noteq> [] then S1_Extracted (length native_text) else S1_NoTextLayer))
            (f (if native_text \<noteq> [] then [native_text] else []))" for f :: "string list \<Rightarrow> string list io"
    by (simp add: io_simps io_return_def)
  define l2 where "l2 = (case fst ?ocr of
                       Returns t \<Rightarrow> (if t \<noteq> [] then S2_Extracted (length t) else S2_NoText)
                     | Raises e \<Rightarrow> S2_Skipped e
                     | Diverges \<Rightarrow> S2_NoText)"
  define l3 where "l3 = (case fst ?img of
                       Returns t \<Rightarrow> (if t \<noteq> [] then S3_Extracted (length t) else S3_NoText)
                     | Raises e \<Rightarrow> S3_Skipped e
                     | Diverges \<Rightarrow> S3_NoText)"
  have lg2: "\<forall>e. fst ?ocr = Raises e \<longrightarrow> l2 = S2_Skipped e" by (simp add: l2_def)
  have lg3: "\<forall>e. fst ?img = Raises e \<longrightarrow> l3 = S3_Skipped e" by (simp add: l3_def)
  show ?thesis
  proof (cases "?combined = []")
    case True
    have "process_pdf libs file_path
             = (Returns [],
                [S1_Start file_path,
                 if native_text \<noteq> [] then S1_Extracted (length native_text) else S1_NoTextLayer,
                 S2_Start]
                @ snd ?ocr @ [l2] @ [S3_Start] @ snd ?img @ [l3] @ [PDF_NoText])"
      unfolding process_pdf_def rd nt io_bind_lift_Inr s2 s3 first
      using True
      by (simp add: rd nt io_simps parts Let_def io_return_def l2_def l3_def
            del: filter.simps)
    with True lg2 lg3 show ?thesis by (intro exI [of _ "[]"] exI [of _ l2] exI [of _ l3] exI) auto
  next
    case False
    from pdf_chunks_of_clean_text [OF False hd_normalise [OF False]]
    obtain chunks where c: "pdf_split_into_chunks ?combined PDF_CHUNK_SIZE PDF_CHUNK_OVERLAP = Some chunks"
      and ne: "chunks \<noteq> []" by blast
    have "process_pdf libs file_path
             = (Returns chunks,
                [S1_Start file_path,
                 if native_text \<noteq> [] then S1_Extracted (length native_text) else S1_NoTextLayer,
                 S2_Start]
                @ snd ?ocr @ [l2] @ [S3_Start] @ snd ?img @ [l3]
                @ [PDF_Total (length ?combined) (length chunks)])"
      unfolding process_pdf_def rd nt io_bind_lift_Inr s2 s3 first
      using False c
      by (simp add: rd nt io_simps parts Let_def io_return_def l2_def l3_def
            del: filter.simps)
    with False c ne lg2 lg3 show ?thesis
      by (intro exI [of _ chunks] exI [of _ l2] exI [of _ l3] exI) auto
  qed
qed

subsection \<open>The claims about the extraction pipeline\<close>

text \<open>
  C9. For every file path and every extension whose lower-case form is not one of
  \<open>.pdf\<close>, \<open>.docx\<close>, \<open>.pptx\<close>, \<open>process_document\<close> raises a \<open>ValueError\<close> whose message
  names the lower-cased extension and the supported types; it does so whatever the
  libraries would return for the file, and before anything is printed. For every
  extension whose lower-case form is in the set, the guard is passed: the first thing
  \<open>process_document\<close> does is to print that it extracts the file.
\<close>

theorem unsupported_extension_rejected:
  "(lower file_ext \<notin> {''.pdf'', ''.docx'', ''.pptx''} \<longrightarrow>
      process_document libs file_path file_ext
        = (Raises (ValueError (''Unsupported file type '' @ [CHR 0x27] @ lower file_ext
                     @ [CHR 0x27] @ ''. Supported types: .docx, .pdf, .pptx'')), []))
   \<and> (lower file_ext \<in> {''.pdf'', ''.docx'', ''.pptx''} \<longrightarrow>
      (\<exists>r l. process_document libs file_path file_ext
                 = (r, DP_Extracting file_path (lower file_ext) # l)))"
proof (intro conjI impI)
  assume "lower file_ext \<notin> {''.pdf'', ''.docx'', ''.pptx''}"
  then have "lower file_ext \<notin> SUPPORTED_EXTENSIONS" by (simp add: SUPPORTED_EXTENSIONS_def)
  from process_document_unsupported [OF this]
  show "process_document libs file_path file_ext
        = (Raises (ValueError (''Unsupported file type '' @ [CHR 0x27] @ lower file_ext
                     @ [CHR 0x27] @ ''. Supported types: .docx, .pdf, .pptx'')), [])"
    by (simp add: unsupported_message_def supported_join)
next
  assume "lower file_ext \<in> {''.pdf'', ''.docx'', ''.pptx''}"
  then have "lower file_ext \<in> SUPPORTED_EXTENSIONS" by (simp add: SUPPORTED_EXTENSIONS_def)
  then show "\<exists>r l. process_document libs file_path file_ext
                 = (r, DP_Extracting file_path (lower file_ext) # l)"
    by (rule process_document_supported)
qed

text \<open>The extension \<open>.TXT\<close> is rejected and the extension \<open>.DOCX\<close> passes the guard.\<close>

theorem unsupported_extension_rejected_witness:
  "lower ''.TXT'' \<notin> {''.pdf'', ''.docx'', ''.pptx''}
   \<and> process_document example_libs ''/tmp/notes.TXT'' ''.TXT''
        = (Raises (ValueError (''Unsupported file type '' @ [CHR 0x27] @ ''.txt''
                     @ [CHR 0x27] @ ''. Supported types: .docx, .pdf, .pptx'')), [])
   \<and> lower ''.DOCX'' \<in> {''.pdf'', ''.docx'', ''.pptx''}
   \<and> (\<exists>r l. process_document example_libs ''/tmp/a.docx'' ''.DOCX''
                 = (r, DP_Extracting ''/tmp/a.docx'' ''.docx'' # l))"
proof -
  have t: "lower ''.TXT'' = ''.txt''" and d: "lower ''.DOCX'' = ''.docx''" by code_simp+
  from unsupported_extension_rejected [of "''.TXT''" example_libs "''/tmp/notes.TXT''"]
       unsupported_extension_rejected [of "''.DOCX''" example_libs "''/tmp/a.docx''"]
  show ?thesis unfolding t d by simp
qed



text \<open>
  C2, as stated, fails: an exception of the native text layer ends \<open>process_pdf\<close>, since
  stage 1 runs outside any \<open>try\<close>; and an exception of the page OCR that is not a
  \<open>RuntimeError\<close> ends it too, since the handler of stage 2 is \<open>except RuntimeError\<close>.
\<close>

theorem stage_exception_aborts:
  "process_pdf example_libs_bad_page ''/tmp/a.pdf''
     = (Raises (OtherException ''unexpected end of stream''), [S1_Start ''/tmp/a.pdf''])
   \<and> process_pdf example_libs_no_poppler ''/tmp/a.pdf''
     = (Raises (OtherException ''Unable to get page count. Is poppler installed?''),
        [S1_Start ''/tmp/a.pdf'', S1_Extracted 11, S2_Start, OCR_Running])"
  by code_simp

text \<open>
  C2, amended. When the reader opens the PDF and the native stage returns, and every
  exception that escapes the page OCR, or that the iteration over a page's embedded images
  raises, is a \<open>RuntimeError\<close>, then \<open>process_pdf\<close> returns the chunks of the combined text
  of the stages, where a stage that raised contributes nothing, and prints that the stage
  was skipped; a \<open>pdf2image\<close> that cannot be imported is such a \<open>RuntimeError\<close>. No
  assumption is made on the embedded images themselves or on requesting the image list of
  a page: whatever they raise is caught inside stage 3. Every image whose decoding or OCR
  raised has its line printed, with the number of its page, if stage 3 reaches its page,
  that is, if no iteration over the images of an earlier page raised. When no iteration
  over a page's images raises, stage 3 returns the normalised text of the images that
  could be read, in the order of the pages and of the images of a page: an image that
  raised and a page whose image list cannot be requested take nothing away from the text
  of the others.
\<close>

theorem stage_failures_recovered:
  assumes "pypdf_PdfReader libs file_path = Inr reader"
    and "extract_text_native reader = Inr native_text"
    and "\<forall>e. fst (extract_text_ocr libs file_path) = Raises e \<longrightarrow> is_RuntimeError e"
    and "\<forall>p\<in>set (reader_pages reader). \<forall>il e.
           page_images p = Inr il \<and> image_iter_error il = Some e \<longrightarrow> is_RuntimeError e"
  shows "\<exists>chunks logs. process_pdf libs file_path = (Returns chunks, logs)
     \<and> (if normalise (join '' '' (filter (\<lambda>t. t \<noteq> [])
              [native_text, contribution (fst (extract_text_ocr libs file_path)),
               contribution (fst (extract_images_text reader))])) = []
         then chunks = []
         else pdf_split_into_chunks
                (normalise (join '' '' (filter (\<lambda>t. t \<noteq> [])
                  [native_text, contribution (fst (extract_text_ocr libs file_path)),
                   contribution (fst (extract_images_text reader))])))
                PDF_CHUNK_SIZE PDF_CHUNK_OVERLAP = Some chunks)
     \<and> (\<forall>e. fst (extract_text_ocr libs file_path) = Raises e \<longrightarrow>
           S2_Skipped e \<in> set logs
           \<and> contribution (fst (extract_text_ocr libs file_path)) = [])
     \<and> (\<forall>e. pdf2image_import libs = Inl e \<and> is_ImportError e \<longrightarrow>
           S2_Skipped (RuntimeError ''pdf2image is not installed. Run: pip install pdf2image'')
             \<in> set logs)
     \<and> (\<forall>e. fst (extract_images_text reader) = Raises e \<longrightarrow>
           S3_Skipped e \<in> set logs
           \<and> contribution (fst (extract_images_text reader)) = [])
     \<and> (\<forall>i<length (reader_pages reader).
           (\<forall>j<i. \<forall>il. page_images (reader_pages reader ! j) = Inr il
              \<longrightarrow> image_iter_error il = None) \<longrightarrow>
           (\<forall>il. page_images (reader_pages reader ! i) = Inr il \<longrightarrow>
              (\<forall>img\<in>set (image_items il). \<forall>e. image_ocr img = Inl e \<longrightarrow>
                 Img_Skipping (i + 1) e \<in> set logs)))
     \<and> ((\<forall>p\<in>set (reader_pages reader). \<forall>il. page_images p = Inr il \<longrightarrow> image_iter_error il = None)
          \<longrightarrow> fst (extract_images_text reader)
                = Returns (normalise (join NL
                    (concat (map page_image_texts (reader_pages reader))))))"
proof -
  let ?ocr = "extract_text_ocr libs file_path"
  let ?img = "extract_images_text reader"
  from extract_images_text_outcome [of reader]
  obtain r3 l3 where img: "?img = (r3, l3)"
    and rs: "\<forall>e. r3 = Raises e \<longrightarrow>
           (\<exists>p\<in>set (reader_pages reader). \<exists>il. page_images p = Inr il \<and> image_iter_error il = Some e)"
    by blast
  have r3: "\<forall>e. fst ?img = Raises e \<longrightarrow> is_RuntimeError e"
    using rs assms(4) img by fastforce
  from process_pdf_outcome [OF assms(1,2,3) r3]
  obtain chunks m2 m3 m4 where
    p: "process_pdf libs file_path
             = (Returns chunks,
                [S1_Start file_path,
                 if native_text \<noteq> [] then S1_Extracted (length native_text) else S1_NoTextLayer,
                 S2_Start]
                @ snd ?ocr @ [m2] @ [S3_Start] @ snd ?img @ [m3] @ [m4])"
    and g2: "\<forall>e. fst ?ocr = Raises e \<longrightarrow> m2 = S2_Skipped e"
    and g3: "\<forall>e. fst ?img = Raises e \<longrightarrow> m3 = S3_Skipped e"
    and c: "if normalise (join '' '' (filter (\<lambda>t. t \<noteq> [])
                  [native_text, contribution (fst ?ocr), contribution (fst ?img)])) = []
             then chunks = []
             else pdf_split_into_chunks
                    (normalise (join '' '' (filter (\<lambda>t. t \<noteq> [])
                      [native_text, contribution (fst ?ocr), contribution (fst ?img)])))
                    PDF_CHUNK_SIZE PDF_CHUNK_OVERLAP = Some chunks
                  \<and> chunks \<noteq> []"
    by blast
  let ?logs = "[S1_Start file_path,
                 if native_text \<noteq> [] then S1_Extracted (length native_text) else S1_NoTextLayer,
                 S2_Start]
                @ snd ?ocr @ [m2] @ [S3_Start] @ snd ?img @ [m3] @ [m4]"
  have c': "if normalise (join '' '' (filter (\<lambda>t. t \<noteq> [])
                  [native_text, contribution (fst ?ocr), contribution (fst ?img)])) = []
             then chunks = []
             else pdf_split_into_chunks
                    (normalise (join '' '' (filter (\<lambda>t. t \<noteq> [])
                      [native_text, contribution (fst ?ocr), contribution (fst ?img)])))
                    PDF_CHUNK_SIZE PDF_CHUNK_OVERLAP = Some chunks"
    using c by (simp split: if_splits)
  have a2: "\<forall>e. fst ?ocr = Raises e \<longrightarrow>
              S2_Skipped e \<in> set ?logs \<and> contribution (fst ?ocr) = []"
    using g2 by (simp add: contribution_def)
  have a2': "\<forall>e. pdf2image_import libs = Inl e \<and> is_ImportError e \<longrightarrow>
           S2_Skipped (RuntimeError ''pdf2image is not installed. Run: pip install pdf2image'')
             \<in> set ?logs"
  proof (intro allI impI)
    fix e assume "pdf2image_import libs = Inl e \<and> is_ImportError e"
    then have "fst ?ocr = Raises (RuntimeError ''pdf2image is not installed. Run: pip install pdf2image'')"
      using extract_text_ocr_import_error [of libs e file_path] by simp
    with a2 show "S2_Skipped (RuntimeError ''pdf2image is not installed. Run: pip install pdf2image'')
             \<in> set ?logs" by blast
  qed
  have a3: "\<forall>e. fst ?img = Raises e \<longrightarrow>
              S3_Skipped e \<in> set ?logs \<and> contribution (fst ?img) = []"
    using g3 by (simp add: contribution_def)
  have a4: "\<forall>i<length (reader_pages reader).
           (\<forall>j<i. \<forall>il. page_images (reader_pages reader ! j) = Inr il
              \<longrightarrow> image_iter_error il = None) \<longrightarrow>
           (\<forall>il. page_images (reader_pages reader ! i) = Inr il \<longrightarrow>
              (\<forall>img\<in>set (image_items il). \<forall>e. image_ocr img = Inl e \<longrightarrow>
                 Img_Skipping (i + 1) e \<in> set ?logs))"
  proof (intro allI impI ballI)
    fix i il img e
    assume i: "i < length (reader_pages reader)"
      and before: "\<forall>j<i. \<forall>il. page_images (reader_pages reader ! j) = Inr il
              \<longrightarrow> image_iter_error il = None"
      and pg: "page_images (reader_pages reader ! i) = Inr il"
      and im: "img \<in> set (image_items il)"
      and ex: "image_ocr img = Inl e"
    from pages_images_loop_logs [OF i before pg im ex, of 0 "[]" 0]
    have "Img_Skipping (i + 1) e \<in> set (snd (pages_images_loop (reader_pages reader) 0 [] 0))"
      by simp
    with extract_images_text_logs [of reader]
    have "Img_Skipping (i + 1) e \<in> set (snd ?img)" by blast
    then show "Img_Skipping (i + 1) e \<in> set ?logs" by simp
  qed
  have a5: "(\<forall>p\<in>set (reader_pages reader). \<forall>il. page_images p = Inr il \<longrightarrow> image_iter_error il = None)
          \<longrightarrow> fst ?img = Returns (normalise (join NL
                    (concat (map page_image_texts (reader_pages reader)))))"
    using extract_images_text_texts [of reader] by blast
  from p c' a2 a2' a3 a4 a5 show ?thesis by blast
qed

text \<open>
  The example PDF whose image list raises a \<open>RuntimeError\<close> after one undecodable image:
  the chunk of the native text is returned, and the image, the page OCR and stage 3 are
  printed as skipped. The example PDF of two pages: the image that reads \<open>Fig 1\<close> is in the
  chunk, next to an image that raised and before a page that was passed over.
\<close>

theorem stage_failures_recovered_witness:
  "pypdf_PdfReader example_libs_lazy ''/tmp/a.pdf'' = Inr example_reader_lazy
   \<and> extract_text_native example_reader_lazy = Inr ''Hello world''
   \<and> fst (extract_text_ocr example_libs_lazy ''/tmp/a.pdf'')
        = Raises (RuntimeError ''pdf2image is not installed. Run: pip install pdf2image'')
   \<and> is_RuntimeError (RuntimeError ''pdf2image is not installed. Run: pip install pdf2image'')
   \<and> reader_pages example_reader_lazy
        = [\<lparr>page_extract_text = Inr (Some ''Hello  world''),
            page_images = Inr \<lparr>image_items =
                                [\<lparr>image_name = ''Im0'',
                                  image_ocr = Inl (OtherException ''cannot identify image file'')\<rparr>],
                              image_iter_error = Some (RuntimeError ''unsupported filter'')\<rparr>\<rparr>]
   \<and> is_RuntimeError (RuntimeError ''unsupported filter'')
   \<and> (\<exists>chunks logs. process_pdf example_libs_lazy ''/tmp/a.pdf'' = (Returns chunks, logs)
         \<and> chunks = [''Hello world'']
         \<and> S2_Skipped (RuntimeError ''pdf2image is not installed. Run: pip install pdf2image'')
              \<in> set logs
         \<and> S3_Skipped (RuntimeError ''unsupported filter'') \<in> set logs
         \<and> Img_Skipping 1 (OtherException ''cannot identify image file'') \<in> set logs)
   \<and> pypdf_PdfReader example_libs_figures ''/tmp/b.pdf'' = Inr example_reader_figures
   \<and> extract_text_native example_reader_figures = Inr ''Hello world''
   \<and> fst (extract_text_ocr example_libs_figures ''/tmp/b.pdf'')
        = Raises (RuntimeError ''pdf2image is not installed. Run: pip install pdf2image'')
   \<and> map page_image_texts (reader_pages example_reader_figures) = [[''Fig 1''], []]
   \<and> fst (extract_images_text example_reader_figures) = Returns ''Fig 1''
   \<and> (\<exists>chunks logs. process_pdf example_libs_figures ''/tmp/b.pdf'' = (Returns chunks, logs)
         \<and> chunks = [''Hello world Fig 1'']
         \<and> Img_Skipping 1 (OtherException ''cannot identify image file'') \<in> set logs)"
proof -
  have rt: "is_RuntimeError (RuntimeError ''pdf2image is not installed. Run: pip install pdf2image'')"
    "is_RuntimeError (RuntimeError ''unsupported filter'')" by simp_all
  have d: "pypdf_PdfReader example_libs_lazy ''/tmp/a.pdf'' = Inr example_reader_lazy"
    and e: "extract_text_native example_reader_lazy = Inr ''Hello world''"
    and f: "fst (extract_text_ocr example_libs_lazy ''/tmp/a.pdf'')
        = Raises (RuntimeError ''pdf2image is not installed. Run: pip install pdf2image'')"
    and g: "fst (extract_images_text example_reader_lazy)
        = Raises (RuntimeError ''unsupported filter'')"
    by code_simp+
  have pages: "reader_pages example_reader_lazy
        = [\<lparr>page_extract_text = Inr (Some ''Hello  world''),
            page_images = Inr \<lparr>image_items =
                                [\<lparr>image_name = ''Im0'',
                                  image_ocr = Inl (OtherException ''cannot identify image file'')\<rparr>],
                              image_iter_error = Some (RuntimeError ''unsupported filter'')\<rparr>\<rparr>]"
    by (simp add: example_reader_lazy_def)
  have h3: "\<forall>e. fst (extract_text_ocr example_libs_lazy ''/tmp/a.pdf'') = Raises e
              \<longrightarrow> is_RuntimeError e"
    by (simp add: f)
  have h4: "\<forall>p\<in>set (reader_pages example_reader_lazy). \<forall>il e.
           page_images p = Inr il \<and> image_iter_error il = Some e \<longrightarrow> is_RuntimeError e"
    by (auto simp: pages)
  have comb: "normalise (join '' '' (filter (\<lambda>t. t \<noteq> [])
              [''Hello world'', contribution (fst (extract_text_ocr example_libs_lazy ''/tmp/a.pdf'')),
               contribution (fst (extract_images_text example_reader_lazy))])) = ''Hello world''"
    unfolding f g by code_simp
  have ch: "pdf_split_into_chunks ''Hello world'' PDF_CHUNK_SIZE PDF_CHUNK_OVERLAP
              = Some [''Hello world'']"
    by code_simp
  from stage_failures_recovered [OF d e h3 h4]
  obtain chunks logs where p: "process_pdf example_libs_lazy ''/tmp/a.pdf'' = (Returns chunks, logs)"
    and c: "if normalise (join '' '' (filter (\<lambda>t. t \<noteq> [])
              [''Hello world'', contribution (fst (extract_text_ocr example_libs_lazy ''/tmp/a.pdf'')),
               contribution (fst (extract_images_text example_reader_lazy))])) = []
         then chunks = []
         else pdf_split_into_chunks
                (normalise (join '' '' (filter (\<lambda>t. t \<noteq> [])
                  [''Hello world'', contribution (fst (extract_text_ocr example_libs_lazy ''/tmp/a.pdf'')),
                   contribution (fst (extract_images_text example_reader_lazy))])))
                PDF_CHUNK_SIZE PDF_CHUNK_OVERLAP = Some chunks"
    and s2: "\<forall>e. fst (extract_text_ocr example_libs_lazy ''/tmp/a.pdf'') = Raises e \<longrightarrow>
               S2_Skipped e \<in> set logs
               \<and> contribution (fst (extract_text_ocr example_libs_lazy ''/tmp/a.pdf'')) = []"
    and s3: "\<forall>e. fst (extract_images_text example_reader_lazy) = Raises e \<longrightarrow>
               S3_Skipped e \<in> set logs
               \<and> contribution (fst (extract_images_text example_reader_lazy)) = []"
    and im: "\<forall>i<length (reader_pages example_reader_lazy).
           (\<forall>j<i. \<forall>il. page_images (reader_pages example_reader_lazy ! j) = Inr il
              \<longrightarrow> image_iter_error il = None) \<longrightarrow>
           (\<forall>il. page_images (reader_pages example_reader_lazy ! i) = Inr il \<longrightarrow>
              (\<forall>img\<in>set (image_items il). \<forall>e. image_ocr img = Inl e \<longrightarrow>
                 Img_Skipping (i + 1) e \<in> set logs))"
    by blast
  from c have c1: "chunks = [''Hello world'']" unfolding comb ch by simp
  from s2 f have c2: "S2_Skipped (RuntimeError ''pdf2image is not installed. Run: pip install pdf2image'')
              \<in> set logs" by simp
  from s3 g have c3: "S3_Skipped (RuntimeError ''unsupported filter'') \<in> set logs" by simp
  from im [rule_format, of 0] have c4:
    "Img_Skipping 1 (OtherException ''cannot identify image file'') \<in> set logs"
    unfolding pages by simp
  from p c1 c2 c3 c4 have lazy: "\<exists>chunks logs.
         process_pdf example_libs_lazy ''/tmp/a.pdf'' = (Returns chunks, logs)
         \<and> chunks = [''Hello world'']
         \<and> S2_Skipped (RuntimeError ''pdf2image is not installed. Run: pip install pdf2image'')
              \<in> set logs
         \<and> S3_Skipped (RuntimeError ''unsupported filter'') \<in> set logs
         \<and> Img_Skipping 1 (OtherException ''cannot identify image file'') \<in> set logs"
    by blast
  have d': "pypdf_PdfReader example_libs_figures ''/tmp/b.pdf'' = Inr example_reader_figures"
    and e': "extract_text_native example_reader_figures = Inr ''Hello world''"
    and f': "fst (extract_text_ocr example_libs_figures ''/tmp/b.pdf'')
        = Raises (RuntimeError ''pdf2image is not installed. Run: pip install pdf2image'')"
    and t': "map page_image_texts (reader_pages example_reader_figures) = [[''Fig 1''], []]"
    by code_simp+
  have pages': "reader_pages example_reader_figures
     = [\<lparr>page_extract_text = Inr (Some ''Hello  world''),
          page_images = Inr \<lparr>image_items =
                                [\<lparr>image_name = ''Im0'',
                                  image_ocr = Inl (OtherException ''cannot identify image file'')\<rparr>,
                                 \<lparr>image_name = ''Im1'', image_ocr = Inr '' Fig 1 ''\<rparr>],
                              image_iter_error = None\<rparr>\<rparr>,
         \<lparr>page_extract_text = Inr None,
          page_images = Inl (OtherException ''invalid page resources'')\<rparr>]"
    by (simp add: example_reader_figures_def)
  have h3': "\<forall>e. fst (extract_text_ocr example_libs_figures ''/tmp/b.pdf'') = Raises e
              \<longrightarrow> is_RuntimeError e"
    by (simp add: f')
  have none': "\<forall>p\<in>set (reader_pages example_reader_figures). \<forall>il.
                 page_images p = Inr il \<longrightarrow> image_iter_error il = None"
    by (auto simp: pages')
  then have h4': "\<forall>p\<in>set (reader_pages example_reader_figures). \<forall>il e.
           page_images p = Inr il \<and> image_iter_error il = Some e \<longrightarrow> is_RuntimeError e"
    by auto
  have nj: "normalise (join NL (concat [[''Fig 1''], []])) = ''Fig 1''" by code_simp
  from stage_failures_recovered [OF d' e' h3' h4']
  obtain chunks' logs' where
    p': "process_pdf example_libs_figures ''/tmp/b.pdf'' = (Returns chunks', logs')"
    and c': "if normalise (join '' '' (filter (\<lambda>t. t \<noteq> [])
              [''Hello world'', contribution (fst (extract_text_ocr example_libs_figures ''/tmp/b.pdf'')),
               contribution (fst (extract_images_text example_reader_figures))])) = []
         then chunks' = []
         else pdf_split_into_chunks
                (normalise (join '' '' (filter (\<lambda>t. t \<noteq> [])
                  [''Hello world'', contribution (fst (extract_text_ocr example_libs_figures ''/tmp/b.pdf'')),
                   contribution (fst (extract_images_text example_reader_figures))])))
                PDF_CHUNK_SIZE PDF_CHUNK_OVERLAP = Some chunks'"
    and im': "\<forall>i<length (reader_pages example_reader_figures).
           (\<forall>j<i. \<forall>il. page_images (reader_pages example_reader_figures ! j) = Inr il
              \<longrightarrow> image_iter_error il = None) \<longrightarrow>
           (\<forall>il. page_images (reader_pages example_reader_figures ! i) = Inr il \<longrightarrow>
              (\<forall>img\<in>set (image_items il). \<forall>e. image_ocr img = Inl e \<longrightarrow>
                 Img_Skipping (i + 1) e \<in> set logs'))"
    and tx': "(\<forall>p\<in>set (reader_pages example_reader_figures). \<forall>il.
                 page_images p = Inr il \<longrightarrow> image_iter_error il = None)
          \<longrightarrow> fst (extract_images_text example_reader_figures)
                = Returns (normalise (join NL
                    (concat (map page_image_texts (reader_pages example_reader_figures)))))"
    by blast
  from tx' none' have g': "fst (extract_images_text example_reader_figures) = Returns ''Fig 1''"
    unfolding t' nj by blast
  have comb': "normalise (join '' '' (filter (\<lambda>t. t \<noteq> [])
              [''Hello world'', contribution (fst (extract_text_ocr example_libs_figures ''/tmp/b.pdf'')),
               contribution (fst (extract_images_text example_reader_figures))]))
            = ''Hello world Fig 1''"
    unfolding f' g' by code_simp
  have ch': "pdf_split_into_chunks ''Hello world Fig 1'' PDF_CHUNK_SIZE PDF_CHUNK_OVERLAP
              = Some [''Hello world Fig 1'']"
    by code_simp
  from c' have c1': "chunks' = [''Hello world Fig 1'']" unfolding comb' ch' by simp
  from im' [rule_format, of 0] have c4':
    "Img_Skipping 1 (OtherException ''cannot identify image file'') \<in> set logs'"
    unfolding pages' by fastforce
  from p' c1' c4' have figures: "\<exists>chunks logs.
         process_pdf example_libs_figures ''/tmp/b.pdf'' = (Returns chunks, logs)
         \<and> chunks = [''Hello world Fig 1'']
         \<and> Img_Skipping 1 (OtherException ''cannot identify image file'') \<in> set logs"
    by blast
  from rt d e f pages lazy d' e' f' t' g' figures show ?thesis by blast
qed

end
